theory Spec2Isabelle
  imports Complex_Main "HOL-Library.Word"
begin

section \<open>Errors\<close>

text \<open>
  Every exception the modelled Python code can raise is a value of \<open>error\<close>; a function
  that can raise returns \<open>error + 'a\<close>, with \<open>Inl\<close> for the exception.

  The specification uses its own, language-neutral names. It calls the
  \<open>AssertionError\<close> of the axis check \<open>InvalidArgument\<close>, the \<open>AssertionError\<close> of the
  dilation check and the \<open>StopIteration\<close> of a model without parameters
  \<open>InvalidState\<close>, and \<open>NotImplementedError\<close> \<open>NotSupported\<close>.
\<close>

datatype error =
    AssertionError string
  | NotImplementedError
  | StopIteration
  | TypeError
  | ValueError
  | AxisError
  | RuntimeError
  | IndexError

abbreviation axis_msg :: string where
  "axis_msg \<equiv> ''Only 2 and 3 allowed for axis''"

abbreviation dilation_msg :: string where
  "dilation_msg \<equiv> ''Dilation should equal 1 before conversion, maybe the model is already converted?''"

section \<open>The module graph\<close>

text \<open>
  A \<open>stride\<close> or \<open>dilation\<close> attribute of a two-dimensional layer is a Python integer or
  a pair of Python integers. \<open>hasattr(v, "__len__")\<close> is false for \<open>Scalar\<close> and true for
  \<open>Pair\<close>. The \<open>axis\<close> argument of the conversion has the same two forms.
\<close>

datatype attr = Scalar int | Pair int int

text \<open>
  A module exposes each of the two attributes or not (\<open>hasattr(module, "dilation")\<close>,
  \<open>hasattr(module, "stride")\<close>). The conversion reaches the model only through
  \<open>model.modules()\<close>, which yields every module object once; the model is the list of
  its modules in that order, and the in-place update of a module is the update of
  its place in the list.
\<close>

record module =
  dilation :: "attr option"
  stride :: "attr option"

section \<open>NumPy integer arrays of two elements\<close>

text \<open>
  \<open>stride_so_far = np.array([1, 1])\<close> is an array of NumPy's default integer type,
  the signed 64-bit integer (on Linux and macOS, and on Windows from NumPy 2): \<open>*=\<close>
  wraps around silently, and \<open>int(stride_so_far[ax])\<close> reads the element as a signed
  value.
\<close>

type_synonym int64 = "64 word"

definition fits_int64 :: "int \<Rightarrow> bool" where
  "fits_int64 n \<longleftrightarrow> - (2 ^ 63) \<le> n \<and> n < 2 ^ 63"

definition wrap_int64 :: "int \<Rightarrow> int" where
  "wrap_int64 n = sint (word_of_int n :: int64)"

text \<open>
  \<open>np.array(module.stride)\<close> of a pair of Python integers is an \<open>int64\<close> array when both
  fit. Otherwise it is a \<open>uint64\<close> or an \<open>object\<close> array, and the in-place product with
  the \<open>int64\<close> array \<open>stride_so_far\<close> raises \<open>UFuncTypeError\<close>, a \<open>TypeError\<close> (the
  result cannot be cast back to \<open>int64\<close>).
\<close>

definition imul :: "int64 \<times> int64 \<Rightarrow> int \<times> int \<Rightarrow> error + int64 \<times> int64" where
  "imul ssf s =
     (if fits_int64 (fst s) \<and> fits_int64 (snd s)
      then Inr (fst ssf * word_of_int (fst s), snd ssf * word_of_int (snd s))
      else Inl TypeError)"

text \<open>Reading and writing index \<open>ax\<close> (0 or 1) of a two-element sequence.\<close>

definition get2 :: "nat \<Rightarrow> 'a \<times> 'a \<Rightarrow> 'a" where
  "get2 ax p = (if ax = 0 then fst p else snd p)"

definition set2 :: "nat \<Rightarrow> 'a \<Rightarrow> 'a \<times> 'a \<Rightarrow> 'a \<times> 'a" where
  "set2 ax v p = (if ax = 0 then (v, snd p) else (fst p, v))"

text \<open>
  \<open>if not hasattr(module.stride, "__len__"): module.stride = (module.stride, module.stride)\<close>
\<close>

definition as_pair :: "attr \<Rightarrow> int \<times> int" where
  "as_pair s = (case s of Scalar n \<Rightarrow> (n, n) | Pair p q \<Rightarrow> (p, q))"

definition tuple :: "int \<times> int \<Rightarrow> attr" where
  "tuple p = Pair (fst p) (snd p)"

section \<open>to_dense_prediction_model\<close>

text \<open>
  The first half of the loop body: a module with a \<open>dilation\<close> must have dilation
  \<open>1\<close> or \<open>(1, 1)\<close>; its new dilation is \<open>[1, 1]\<close> with the entry of every selected axis
  replaced by the cumulative stride read before this module's own stride.
\<close>

definition set_dilation :: "nat list \<Rightarrow> int64 \<times> int64 \<Rightarrow> module \<Rightarrow> error + module" where
  "set_dilation axis stride_so_far m =
     (case dilation m of
        None \<Rightarrow> Inr m
      | Some d \<Rightarrow>
          if d = Scalar 1 \<or> d = Pair 1 1
          then Inr (m\<lparr>dilation := Some (tuple
                 (foldl (\<lambda>new_dilation ax. set2 ax (sint (get2 ax stride_so_far)) new_dilation)
                        (1, 1) axis))\<rparr>)
          else Inl (AssertionError dilation_msg))"

text \<open>
  The second half: a scalar stride becomes a pair, the cumulative stride is multiplied
  by it, and the entries of the selected axes are set to 1.
\<close>

definition remove_stride ::
  "nat list \<Rightarrow> int64 \<times> int64 \<Rightarrow> module \<Rightarrow> error + (int64 \<times> int64) \<times> module" where
  "remove_stride axis stride_so_far m =
     (case stride m of
        None \<Rightarrow> Inr (stride_so_far, m)
      | Some s \<Rightarrow>
          let s2 = as_pair s in
          (case imul stride_so_far s2 of
             Inl e \<Rightarrow> Inl e
           | Inr stride_so_far' \<Rightarrow>
               Inr (stride_so_far',
                    m\<lparr>stride := Some (tuple
                       (foldl (\<lambda>new_stride ax. set2 ax 1 new_stride) s2 axis))\<rparr>)))"

definition convert_module ::
  "nat list \<Rightarrow> int64 \<times> int64 \<Rightarrow> module \<Rightarrow> error + (int64 \<times> int64) \<times> module" where
  "convert_module axis stride_so_far m =
     (case set_dilation axis stride_so_far m of
        Inl e \<Rightarrow> Inl e
      | Inr m1 \<Rightarrow> remove_stride axis stride_so_far m1)"

text \<open>The loop over \<open>model.modules()\<close>; the first exception ends it.\<close>

fun convert_modules ::
  "nat list \<Rightarrow> int64 \<times> int64 \<Rightarrow> module list \<Rightarrow> error + module list" where
  "convert_modules axis stride_so_far [] = Inr []"
| "convert_modules axis stride_so_far (m # ms) =
     (case convert_module axis stride_so_far m of
        Inl e \<Rightarrow> Inl e
      | Inr (stride_so_far', m') \<Rightarrow>
          (case convert_modules axis stride_so_far' ms of
             Inl e \<Rightarrow> Inl e
           | Inr ms' \<Rightarrow> Inr (m' # ms')))"

definition axis_list :: "attr \<Rightarrow> int list" where
  "axis_list axis = (case axis of Scalar a \<Rightarrow> [a] | Pair a b \<Rightarrow> [a, b])"

definition to_dense_prediction_model :: "module list \<Rightarrow> attr \<Rightarrow> error + module list" where
  "to_dense_prediction_model model axis =
     (if \<not> list_all (\<lambda>ax. ax \<in> set [2, 3]) (axis_list axis)
      then Inl (AssertionError axis_msg)
      else convert_modules (map (\<lambda>ax. nat (ax - 2)) (axis_list axis)) (1, 1) model)"

subsection \<open>Notions used to state the properties of the conversion\<close>

text \<open>The stride of a module on axis \<open>a\<close> (0 or 1); a module without a stride counts as 1.\<close>

definition stride_on :: "nat \<Rightarrow> module \<Rightarrow> int" where
  "stride_on a m =
     (case stride m of None \<Rightarrow> 1 | Some (Scalar n) \<Rightarrow> n | Some (Pair p q) \<Rightarrow> get2 a (p, q))"

definition dilation_on :: "nat \<Rightarrow> module \<Rightarrow> int option" where
  "dilation_on a m =
     (case dilation m of None \<Rightarrow> None | Some (Scalar n) \<Rightarrow> Some n
      | Some (Pair p q) \<Rightarrow> Some (get2 a (p, q)))"

text \<open>The value of \<open>stride_so_far\<close> after the loop has passed the modules \<open>ms\<close>.\<close>

fun ssf_after :: "int64 \<times> int64 \<Rightarrow> module list \<Rightarrow> int64 \<times> int64" where
  "ssf_after ssf [] = ssf"
| "ssf_after ssf (m # ms) =
     ssf_after (case stride m of
                  None \<Rightarrow> ssf
                | Some (Scalar n) \<Rightarrow> (fst ssf * word_of_int n, snd ssf * word_of_int n)
                | Some (Pair p q) \<Rightarrow> (fst ssf * word_of_int p, snd ssf * word_of_int q)) ms"

text \<open>The condition of the assertion on a module's dilation.\<close>

definition unit_dilation :: "module \<Rightarrow> bool" where
  "unit_dilation m \<longleftrightarrow>
     (case dilation m of None \<Rightarrow> True | Some d \<Rightarrow> d = Scalar 1 \<or> d = Pair 1 1)"

definition stride_fits :: "module \<Rightarrow> bool" where
  "stride_fits m \<longleftrightarrow>
     (case stride m of None \<Rightarrow> True | Some (Scalar n) \<Rightarrow> fits_int64 n
      | Some (Pair p q) \<Rightarrow> fits_int64 p \<and> fits_int64 q)"

section \<open>Arrays\<close>

text \<open>
  A NumPy array or a PyTorch tensor is its shape and its elements, listed in the
  row-major order of their indices (whatever the order in memory is). The
  floating-point elements are taken as real numbers: what is proved below concerns
  which elements are read and added, not how a sum is rounded.
\<close>

record ndarray =
  shape :: "nat list"
  data :: "real list"

definition well_formed :: "'a ndarray_scheme \<Rightarrow> bool" where
  "well_formed a \<longleftrightarrow> length (data a) = prod_list (shape a)"

text \<open>Row-major position of a multi-index, and the element \<open>a[idx]\<close> of an array.\<close>

definition flat_index :: "nat list \<Rightarrow> nat list \<Rightarrow> nat" where
  "flat_index dims idx = foldl (\<lambda>acc (d, i). acc * d + i) 0 (zip dims idx)"

definition item :: "'a ndarray_scheme \<Rightarrow> nat list \<Rightarrow> real" where
  "item a idx = data a ! flat_index (shape a) idx"

subsection \<open>NumPy arrays in memory\<close>

text \<open>
  \<open>_pad_shift_array\<close> reads the strides of an array, so a NumPy array also has the
  order in which its buffer holds the elements: row-major (C, the last index runs
  fastest) or column-major (Fortran, the first index runs fastest), as
  \<open>np.asfortranarray\<close> makes it. Other views of memory are not modelled.
\<close>

datatype mem_order = C_contiguous | F_contiguous

record np_array = ndarray +
  mem_order :: mem_order

text \<open>
  \<open>a.flags.fnc\<close>: the array is Fortran-contiguous and not also C-contiguous. An array
  with a dimension 0, or with at most one dimension above 1, is both.
\<close>

definition fnc :: "np_array \<Rightarrow> bool" where
  "fnc a \<longleftrightarrow>
     mem_order a = F_contiguous \<and> 0 \<notin> set (shape a) \<and>
     2 \<le> length (filter (\<lambda>d. 1 < d) (shape a))"

text \<open>
  \<open>a.strides\<close> and the buffer of a three-dimensional array of shape \<open>(S, C, L)\<close>.
  Strides are counted in elements here, NumPy counts them in bytes (the element size
  times as much). In C order they are \<open>(C * L, L, 1)\<close> and the buffer is \<open>data\<close>; in
  Fortran order they are \<open>(1, S, S * C)\<close> and position \<open>q\<close> of the buffer holds the
  element \<open>[q mod S, q div S mod C, q div (S * C)]\<close>. Where a dimension is 0 the array
  has no element to read, and its strides play no role.
\<close>

definition strides :: "np_array \<Rightarrow> int list" where
  "strides a =
     (let S = shape a ! 0; C = shape a ! 1; L = shape a ! 2 in
      case mem_order a of
        C_contiguous \<Rightarrow> [int C * int L, int L, 1]
      | F_contiguous \<Rightarrow> [1, int S, int S * int C])"

definition buffer :: "np_array \<Rightarrow> real list" where
  "buffer a =
     (let S = shape a ! 0; C = shape a ! 1; L = shape a ! 2 in
      case mem_order a of
        C_contiguous \<Rightarrow> data a
      | F_contiguous \<Rightarrow>
          map (\<lambda>q. item a [q mod S, q div S mod C, q div (S * C)]) [0..<S * C * L])"

text \<open>
  The specification's \<open>LogitSequenceBatch\<close>: an array of shape
  \<open>(n_sequences, n_classes, n_windows)\<close> with every dimension at least 1.
\<close>

definition LogitSequenceBatch :: "np_array \<Rightarrow> bool" where
  "LogitSequenceBatch a \<longleftrightarrow>
     well_formed a \<and> length (shape a) = 3 \<and> list_all (\<lambda>d. 1 \<le> d) (shape a)"

section \<open>log_softmax\<close>

text \<open>
  \<open>scipy.special.log_softmax(x, axis=1)\<close>, a library function, as SciPy computes it:
  \<open>x_max\<close> is the maximum along axis 1, \<open>tmp = x - x_max\<close>, and the result is
  \<open>tmp - log(sum(exp(tmp)))\<close> along axis 1. An array with fewer than two axes has no
  axis 1 (\<open>AxisError\<close>), and the maximum along an axis of length 0 raises \<open>ValueError\<close>.
  The element at row-major position \<open>p\<close> of an array of shape \<open>(d0, d1, ...)\<close> has
  the indices \<open>i = p div (d1 * inner)\<close> on axis 0 and \<open>k = p mod inner\<close> on the axes
  after axis 1, where \<open>inner\<close> is the product of the dimensions after axis 1. The
  result of the elementwise operations has the memory order of \<open>x\<close>.
\<close>

definition log_softmax :: "np_array \<Rightarrow> error + np_array" where
  "log_softmax x =
     (case shape x of
        d0 # d1 # rest \<Rightarrow>
          if d1 = 0 then Inl ValueError
          else
            let inner = prod_list rest in
            Inr (x\<lparr>data :=
              map (\<lambda>p.
                     let i = p div (d1 * inner);
                         k = p mod inner;
                         col = map (\<lambda>j. data x ! ((i * d1 + j) * inner + k)) [0..<d1];
                         x_max = Max (set col);
                         tmp = data x ! p - x_max
                     in tmp - ln (sum_list (map (\<lambda>v. exp (v - x_max)) col)))
                  [0..<length (data x)]\<rparr>)
      | _ \<Rightarrow> Inl AxisError)"

section \<open>_pad_shift_array\<close>

text \<open>
  \<open>np.pad(x, ((0, 0), (0, 0), (0, n)))\<close> of a three-dimensional array: a new array
  whose last axis is longer by \<open>n\<close>, with \<open>x_padded[i, c, u] = x[i, c, u]\<close> for
  \<open>u < W\<close> and 0 after. A negative \<open>n\<close> raises \<open>ValueError\<close>. NumPy allocates the new
  array in Fortran order when \<open>x.flags.fnc\<close> holds and in C order otherwise.
\<close>

definition np_pad :: "np_array \<Rightarrow> int \<Rightarrow> error + np_array" where
  "np_pad x n =
     (if n < 0 then Inl ValueError
      else
        let S = shape x ! 0; C = shape x ! 1; W = shape x ! 2; L = W + nat n in
        Inr \<lparr>shape = [S, C, L],
             data = map (\<lambda>p. if p mod L < W then data x ! ((p div L) * W + p mod L) else 0)
                        [0..<S * C * L],
             mem_order = (if fnc x then F_contiguous else C_contiguous)\<rparr>)"

text \<open>
  A view made by \<open>np.lib.stride_tricks.as_strided(x, strides=new_strides)\<close>: the
  buffer of \<open>x\<close>, the shape of \<open>x\<close>, and the new strides. \<open>as_strided\<close> does not check
  that the strides keep the view inside the buffer, and a read outside the buffer
  returns what the memory holds there: \<open>memory v off\<close> is that value, for the position
  \<open>off\<close> counted in elements from the start of the buffer.
\<close>

record strided_view =
  base :: "real list"
  vshape :: "nat list"
  vstrides :: "int list"
  memory :: "int \<Rightarrow> real"

definition as_strided :: "(int \<Rightarrow> real) \<Rightarrow> np_array \<Rightarrow> int list \<Rightarrow> strided_view" where
  "as_strided mem x new_strides =
     \<lparr>base = buffer x, vshape = shape x, vstrides = new_strides, memory = mem\<rparr>"

text \<open>Reading \<open>v[i, c, t]\<close>.\<close>

definition view_get :: "strided_view \<Rightarrow> nat \<Rightarrow> nat \<Rightarrow> nat \<Rightarrow> real" where
  "view_get v i c t =
     (let off = int i * (vstrides v ! 0) + int c * (vstrides v ! 1) + int t * (vstrides v ! 2)
      in if 0 \<le> off \<and> off < int (length (base v)) then base v ! nat off else memory v off)"

text \<open>
  The first argument is the memory around the buffer that \<open>np.pad\<close> allocates; the
  function has no other input than \<open>x\<close> and \<open>stride\<close>.
\<close>

definition pad_shift_array ::
  "(int \<Rightarrow> real) \<Rightarrow> np_array \<Rightarrow> int \<Rightarrow> error + strided_view" where
  "pad_shift_array mem x strd =
     (if length (shape x) \<noteq> 3 then Inl NotImplementedError
      else
        case np_pad x ((int (shape x ! 0) - 1) * strd) of
          Inl e \<Rightarrow> Inl e
        | Inr x_padded \<Rightarrow>
            let orig_strides = strides x_padded;
                new_strides = [orig_strides ! 0 - strd * orig_strides ! 2,
                               orig_strides ! 1,
                               orig_strides ! 2]
            in Inr (as_strided mem x_padded new_strides))"

section \<open>aggregate_probas\<close>

text \<open>
  \<open>v.sum(axis=0).T\<close> of a view of shape \<open>(S, C, L)\<close>: the array of shape \<open>(L, C)\<close>
  whose element \<open>[t, c]\<close>, at row-major position \<open>t * C + c\<close>, is the sum of
  \<open>v[i, c, t]\<close> over \<open>i\<close>. The result is given by its shape and its elements; its order
  in memory plays no role below.
\<close>

definition sum_axis0_T :: "strided_view \<Rightarrow> ndarray" where
  "sum_axis0_T v =
     (let S = vshape v ! 0; C = vshape v ! 1; L = vshape v ! 2 in
      \<lparr>shape = [L, C],
       data = map (\<lambda>p. sum_list (map (\<lambda>i. view_get v i (p mod C) (p div C)) [0..<S]))
                  [0..<L * C]\<rparr>)"

definition aggregate_probas :: "(int \<Rightarrow> real) \<Rightarrow> np_array \<Rightarrow> int \<Rightarrow> error + ndarray" where
  "aggregate_probas mem logits n_windows_stride =
     (case log_softmax logits of
        Inl e \<Rightarrow> Inl e
      | Inr log_probas \<Rightarrow>
          (case pad_shift_array mem log_probas n_windows_stride of
             Inl e \<Rightarrow> Inl e
           | Inr shifted \<Rightarrow> Inr (sum_axis0_T shifted)))"

text \<open>
  The sum the specification gives for dense position \<open>t\<close> and class \<open>c\<close>: over the
  sequences \<open>i\<close> with \<open>0 \<le> t - i * stride < n_windows\<close>, of
  \<open>log_probas[i, c, t - i * stride]\<close>.
\<close>

definition covering :: "nat \<Rightarrow> nat \<Rightarrow> int \<Rightarrow> nat \<Rightarrow> nat set" where
  "covering S W strd t =
     {i \<in> {0..<S}. 0 \<le> int t - int i * strd \<and> int t - int i * strd < int W}"

definition overlap_sum :: "np_array \<Rightarrow> int \<Rightarrow> nat \<Rightarrow> nat \<Rightarrow> real" where
  "overlap_sum log_probas strd t c =
     (\<Sum>i \<in> covering (shape log_probas ! 0) (shape log_probas ! 2) strd t.
        item log_probas [i, c, nat (int t - int i * strd)])"

text \<open>
  The contribution of sequence \<open>i\<close> to dense position \<open>t\<close> and class \<open>c\<close>: its window
  \<open>t - i * stride\<close> when it has one, 0 otherwise.
\<close>

definition shifted_item :: "np_array \<Rightarrow> int \<Rightarrow> nat \<Rightarrow> nat \<Rightarrow> nat \<Rightarrow> real" where
  "shifted_item a strd i c t =
     (if 0 \<le> int t - int i * strd \<and> int t - int i * strd < int (shape a ! 2)
      then item a [i, c, nat (int t - int i * strd)] else 0)"

section \<open>TimeDistributed\<close>

text \<open>
  The feature extractor and the classifier are modules given by the caller: functions
  from a tensor to a tensor that may raise. A tensor is its shape and its elements, as
  an array is.
\<close>

record time_distributed =
  feat_extractor :: "ndarray \<Rightarrow> error + ndarray"
  clf :: "ndarray \<Rightarrow> error + ndarray"

text \<open>
  \<open>x[:, i]\<close> for \<open>i < x.shape[1]\<close>: window \<open>i\<close> of every batch element. Element
  \<open>[b, k]\<close> of the result, \<open>k\<close> a position in the axes after axis 1, is \<open>x[b, i, k]\<close>.
\<close>

definition select_dim1 :: "ndarray \<Rightarrow> nat \<Rightarrow> ndarray" where
  "select_dim1 x i =
     (let B = shape x ! 0; n = shape x ! 1; inner = prod_list (drop 2 (shape x)) in
      \<lparr>shape = B # drop 2 (shape x),
       data = map (\<lambda>p. data x ! ((p div inner * n + i) * inner + p mod inner))
                  [0..<B * inner]\<rparr>)"

text \<open>A list comprehension over a function that may raise: the first exception ends it.\<close>

fun map_error :: "('a \<Rightarrow> error + 'b) \<Rightarrow> 'a list \<Rightarrow> error + 'b list" where
  "map_error g [] = Inr []"
| "map_error g (a # as) =
     (case g a of
        Inl e \<Rightarrow> Inl e
      | Inr b \<Rightarrow> (case map_error g as of Inl e \<Rightarrow> Inl e | Inr bs \<Rightarrow> Inr (b # bs)))"

text \<open>
  \<open>torch.stack(feats, dim=1)\<close>: the list must not be empty (\<open>RuntimeError\<close>), the
  first tensor must have an axis 0 for the new axis 1 to follow (\<open>IndexError\<close>), and
  all tensors must have the same shape (\<open>RuntimeError\<close>). Element \<open>[b, i, k]\<close> of the
  result is \<open>feats[i][b, k]\<close>.
\<close>

definition torch_stack :: "ndarray list \<Rightarrow> error + ndarray" where
  "torch_stack feats =
     (case feats of
        [] \<Rightarrow> Inl RuntimeError
      | f0 # _ \<Rightarrow>
          (case shape f0 of
             [] \<Rightarrow> Inl IndexError
           | B # rest \<Rightarrow>
               if \<not> list_all (\<lambda>f. shape f = shape f0) feats then Inl RuntimeError
               else
                 let n = length feats; inner = prod_list rest in
                 Inr \<lparr>shape = B # n # rest,
                      data = map (\<lambda>p. data (feats ! (p div inner mod n))
                                         ! (p div (n * inner) * inner + p mod inner))
                                 [0..<B * n * inner]\<rparr>))"

text \<open>\<open>t.flatten(start_dim=1)\<close>: the axes from axis 1 on become one axis.\<close>

definition flatten :: "ndarray \<Rightarrow> error + ndarray" where
  "flatten t =
     (case shape t of
        B # d # rest \<Rightarrow> Inr \<lparr>shape = [B, prod_list (d # rest)], data = data t\<rparr>
      | _ \<Rightarrow> Inl IndexError)"

definition forward :: "time_distributed \<Rightarrow> ndarray \<Rightarrow> error + ndarray" where
  "forward self x =
     (if length (shape x) < 2 then Inl IndexError
      else
        case map_error (\<lambda>i. feat_extractor self (select_dim1 x i)) [0..<shape x ! 1] of
          Inl e \<Rightarrow> Inl e
        | Inr feats \<Rightarrow>
            (case torch_stack feats of
               Inl e \<Rightarrow> Inl e
             | Inr stacked \<Rightarrow>
                 (case flatten stacked of
                    Inl e \<Rightarrow> Inl e
                  | Inr flat \<Rightarrow> clf self flat)))"

subsection \<open>The forward pass as the specification describes it\<close>

text \<open>
  The specification's words: run the feature extractor on each window, concatenate the
  feature vectors of each batch element in window order, pass the result through the
  classifier head. The feature vector of batch element \<open>b\<close> in the output \<open>f\<close> of the
  feature extractor is the block \<open>b\<close> of the elements of \<open>f\<close>.
\<close>

definition feature_size :: "ndarray \<Rightarrow> nat" where
  "feature_size f = prod_list (tl (shape f))"

definition feature_vector :: "ndarray \<Rightarrow> nat \<Rightarrow> real list" where
  "feature_vector f b = take (feature_size f) (drop (b * feature_size f) (data f))"

definition concat_features :: "nat \<Rightarrow> ndarray list \<Rightarrow> ndarray" where
  "concat_features B feats =
     \<lparr>shape = [B, sum_list (map feature_size feats)],
      data = concat (map (\<lambda>b. concat (map (\<lambda>f. feature_vector f b) feats)) [0..<B])\<rparr>"

definition spec_forward :: "time_distributed \<Rightarrow> ndarray \<Rightarrow> error + ndarray" where
  "spec_forward self x =
     (case map_error (\<lambda>i. feat_extractor self (select_dim1 x i)) [0..<shape x ! 1] of
        Inl e \<Rightarrow> Inl e
      | Inr feats \<Rightarrow> clf self (concat_features (shape x ! 0) feats))"

section \<open>get_output_shape\<close>

text \<open>
  A tensor with the element type and the device it lives on; a model with its
  parameters, in the order \<open>model.parameters()\<close> yields them, and its forward pass.
\<close>

datatype dtype = Float16 | BFloat16 | Float32 | Float64

datatype device = CPU | CUDA nat

record tensor = ndarray +
  dtype :: dtype
  device :: device

record nn_model =
  parameters :: "tensor list"
  call :: "tensor \<Rightarrow> error + tensor"

text \<open>\<open>torch.ones(*sizes, dtype=dt, device=dev)\<close>\<close>

definition torch_ones :: "nat list \<Rightarrow> dtype \<Rightarrow> device \<Rightarrow> tensor" where
  "torch_ones sizes dt dev =
     \<lparr>shape = sizes, data = replicate (prod_list sizes) 1, dtype = dt, device = dev\<rparr>"

text \<open>\<open>next(it)\<close> on a fresh iterator over \<open>xs\<close>\<close>

definition next_item :: "'a list \<Rightarrow> error + 'a" where
  "next_item xs = (case xs of [] \<Rightarrow> Inl StopIteration | x # _ \<Rightarrow> Inr x)"

text \<open>
  The keyword arguments are evaluated before \<open>torch.ones\<close> is called, \<open>dtype\<close> first,
  each from a fresh \<open>model.parameters()\<close>. \<open>torch.no_grad()\<close> changes no value. The
  channel count and the window length are natural numbers.
\<close>

definition get_output_shape :: "nn_model \<Rightarrow> nat \<Rightarrow> nat \<Rightarrow> error + nat list" where
  "get_output_shape model in_chans input_window_samples =
     (case next_item (parameters model) of
        Inl e \<Rightarrow> Inl e
      | Inr p1 \<Rightarrow>
          (case next_item (parameters model) of
             Inl e \<Rightarrow> Inl e
           | Inr p2 \<Rightarrow>
               let dummy_input =
                     torch_ones [1, in_chans, input_window_samples] (dtype p1) (device p2)
               in (case call model dummy_input of
                     Inl e \<Rightarrow> Inl e
                   | Inr output \<Rightarrow> Inr (shape output))))"

section \<open>Properties of to_dense_prediction_model\<close>

lemmas conv_eval =
  to_dense_prediction_model_def axis_list_def convert_module_def set_dilation_def
  remove_stride_def imul_def fits_int64_def get2_def set2_def tuple_def as_pair_def

subsection \<open>The loop, module by module\<close>

lemma set_dilation_stride: "set_dilation axis ssf m = Inr m1 \<Longrightarrow> stride m1 = stride m"
  by (auto simp: set_dilation_def split: option.splits if_splits)

lemma convert_module_ssf:
  "convert_module axis ssf m = Inr (ssf', m') \<Longrightarrow> ssf' = ssf_after ssf [m]"
  by (auto simp: convert_module_def remove_stride_def imul_def Let_def as_pair_def dest!: set_dilation_stride
      split: sum.splits option.splits attr.splits if_splits)

lemma convert_modules_nth:
  "convert_modules axis ssf ms = Inr ms' \<Longrightarrow> k < length ms \<Longrightarrow>
   \<exists>s'. convert_module axis (ssf_after ssf (take k ms)) (ms ! k) = Inr (s', ms' ! k)"
proof (induction ms arbitrary: ssf ms' k)
  case Nil
  then show ?case by simp
next
  case (Cons m ms)
  from Cons.prems(1) obtain s1 m1 ms1 where
    step: "convert_module axis ssf m = Inr (s1, m1)" and
    rest: "convert_modules axis s1 ms = Inr ms1" and
    res: "ms' = m1 # ms1"
    by (auto split: sum.splits)
  have s1: "s1 = ssf_after ssf [m]" using step by (rule convert_module_ssf)
  show ?case
  proof (cases k)
    case 0
    with step res show ?thesis by simp
  next
    case (Suc j)
    with Cons.prems(2) have "j < length ms" by simp
    from Cons.IH [OF rest this] obtain s' where
      "convert_module axis (ssf_after s1 (take j ms)) (ms ! j) = Inr (s', ms1 ! j)" by blast
    with Suc res s1 show ?thesis by simp
  qed
qed

lemma convert_modules_length:
  "convert_modules axis ssf ms = Inr ms' \<Longrightarrow> length ms' = length ms"
  by (induction ms arbitrary: ssf ms') (auto split: sum.splits)

lemma ssf_after_prod:
  "ssf_after ssf ms = (fst ssf * word_of_int (prod_list (map (stride_on 0) ms)),
                       snd ssf * word_of_int (prod_list (map (stride_on 1) ms)))"
  by (induction ms arbitrary: ssf) (auto simp: stride_on_def get2_def split: option.splits attr.splits)

lemma get2_set2: "a < 2 \<Longrightarrow> ax < 2 \<Longrightarrow> get2 a (set2 ax v p) = (if a = ax then v else get2 a p)"
  by (auto simp: get2_def set2_def)

lemma get2_foldl_set2:
  "\<forall>ax\<in>set axis. ax < 2 \<Longrightarrow> a < 2 \<Longrightarrow>
   get2 a (foldl (\<lambda>p ax. set2 ax (f ax) p) init axis) = (if a \<in> set axis then f a else get2 a init)"
  by (induction axis arbitrary: init) (auto simp: get2_set2)

lemma get2_ssf_after:
  "a < 2 \<Longrightarrow> get2 a (ssf_after (1, 1) ms) = word_of_int (prod_list (map (stride_on a) ms))"
proof -
  assume "a < 2"
  then have "a = 0 \<or> a = 1" by arith
  then show ?thesis by (auto simp: ssf_after_prod get2_def)
qed

lemma set_dilation_on:
  assumes "set_dilation axis ssf m = Inr m1" and "dilation m \<noteq> None"
    and "\<forall>ax\<in>set axis. ax < 2" and "a < 2"
  shows "dilation_on a m1 = Some (if a \<in> set axis then sint (get2 a ssf) else 1)"
proof -
  let ?nd = "foldl (\<lambda>p ax. set2 ax (sint (get2 ax ssf)) p) (1, 1) axis"
  from assms(1,2) have "dilation m1 = Some (tuple ?nd)"
    by (auto simp: set_dilation_def split: option.splits if_splits)
  then have "dilation_on a m1 = Some (get2 a ?nd)"
    by (simp add: dilation_on_def tuple_def get2_def)
  also have "get2 a ?nd = (if a \<in> set axis then sint (get2 a ssf) else 1)"
    using get2_foldl_set2 [OF assms(3,4), of "\<lambda>ax. sint (get2 ax ssf)" "(1, 1)"]
    by (simp add: get2_def)
  finally show ?thesis .
qed

lemma remove_stride_dilation:
  "remove_stride axis ssf m = Inr (s', m') \<Longrightarrow> dilation m' = dilation m"
  by (auto simp: remove_stride_def Let_def split: option.splits sum.splits)

lemma convert_module_dilation_on:
  assumes "convert_module axis ssf m = Inr (s', m')" and "dilation m \<noteq> None"
    and "\<forall>ax\<in>set axis. ax < 2" and "a < 2"
  shows "dilation_on a m' = Some (if a \<in> set axis then sint (get2 a ssf) else 1)"
proof -
  from assms(1) obtain m1 where d: "set_dilation axis ssf m = Inr m1"
    and r: "remove_stride axis ssf m1 = Inr (s', m')"
    by (auto simp: convert_module_def split: sum.splits)
  from r have "dilation_on a m' = dilation_on a m1"
    by (simp add: dilation_on_def remove_stride_dilation)
  with set_dilation_on [OF d assms(2,3,4)] show ?thesis by simp
qed

lemma axes_lt_2:
  "list_all (\<lambda>ax. ax \<in> set [2, 3]) (axis_list axis) \<Longrightarrow>
   \<forall>ax \<in> set (map (\<lambda>ax. nat (ax - 2)) (axis_list axis)). ax < 2"
  by (auto simp: list_all_iff)

lemma selected_index:
  "list_all (\<lambda>ax. ax \<in> set [2, 3]) (axis_list axis) \<Longrightarrow> int a + 2 \<in> set (axis_list axis) \<Longrightarrow>
   a < 2 \<and> a \<in> set (map (\<lambda>ax. nat (ax - 2)) (axis_list axis))"
  by (force simp: list_all_iff)

lemma wrap_int64_fits: "fits_int64 n \<Longrightarrow> wrap_int64 n = n"
  unfolding fits_int64_def wrap_int64_def
  by (simp add: sint_sbintrunc' signed_take_bit_int_eq_self)

lemma dilation_upstream:
  assumes conv: "to_dense_prediction_model model axis = Inr model'"
    and sel: "int a + 2 \<in> set (axis_list axis)"
    and k: "k < length model" and dil: "dilation (model ! k) \<noteq> None"
  shows "dilation_on a (model' ! k) =
           Some (wrap_int64 (prod_list (map (stride_on a) (take k model))))"
proof -
  let ?axis = "map (\<lambda>ax. nat (ax - 2)) (axis_list axis)"
  from conv have ok: "list_all (\<lambda>ax. ax \<in> set [2, 3]) (axis_list axis)"
    and run: "convert_modules ?axis (1, 1) model = Inr model'"
    by (auto simp: to_dense_prediction_model_def split: if_splits)
  from selected_index [OF ok sel] have a: "a < 2" "a \<in> set ?axis" by simp_all
  from convert_modules_nth [OF run k] obtain s' where
    "convert_module ?axis (ssf_after (1, 1) (take k model)) (model ! k) = Inr (s', model' ! k)"
    by blast
  from convert_module_dilation_on [OF this dil axes_lt_2 [OF ok] a(1)] a(2)
  have "dilation_on a (model' ! k) = Some (sint (get2 a (ssf_after (1, 1) (take k model))))"
    by simp
  then show ?thesis by (simp add: get2_ssf_after [OF a(1)] wrap_int64_def)
qed

lemma set2_foldl_const_fits:
  "P (fst init) \<Longrightarrow> P (snd init) \<Longrightarrow> P v \<Longrightarrow>
   P (fst (foldl (\<lambda>p ax. set2 ax v p) init axis)) \<and> P (snd (foldl (\<lambda>p ax. set2 ax v p) init axis))"
  by (induction axis arbitrary: init) (auto simp: set2_def)

lemma foldl_set2_both:
  assumes "set axis = {0, 1}"
  shows "foldl (\<lambda>p ax. set2 ax v p) init axis = (v, v)"
proof -
  from assms have lt: "\<forall>ax\<in>set axis. ax < 2" by simp
  have "get2 0 (foldl (\<lambda>p ax. set2 ax v p) init axis) = v"
    using get2_foldl_set2 [OF lt, of 0 "\<lambda>_. v" init] assms by simp
  moreover have "get2 1 (foldl (\<lambda>p ax. set2 ax v p) init axis) = v"
    using get2_foldl_set2 [OF lt, of 1 "\<lambda>_. v" init] assms by simp
  ultimately show ?thesis by (simp add: get2_def prod_eq_iff)
qed

lemma remove_stride_None:
  "remove_stride axis ssf m = Inr (s', m') \<Longrightarrow> stride m = None \<Longrightarrow> stride m' = None"
  by (simp add: remove_stride_def)

lemma remove_stride_Some:
  assumes "remove_stride axis ssf m = Inr (s', m')" and "stride m = Some s"
  shows "stride m' = Some (tuple (foldl (\<lambda>p ax. set2 ax 1 p) (as_pair s) axis))"
    and "fits_int64 (fst (as_pair s))" and "fits_int64 (snd (as_pair s))"
  using assms
  by (auto simp: remove_stride_def Let_def imul_def split: sum.splits if_splits)

lemma both_axes_selected:
  assumes "set (axis_list axis) = {2, 3}"
  shows "set (map (\<lambda>ax. nat (ax - 2)) (axis_list axis)) = {0, 1}"
proof -
  have "set (map (\<lambda>ax. nat (ax - 2)) (axis_list axis)) = (\<lambda>ax. nat (ax - 2)) ` {2, 3}"
    using assms by simp
  then show ?thesis by simp
qed

subsection \<open>Converting a converted model\<close>

lemma set_dilation_again:
  "set_dilation axis ssf m = (if unit_dilation m then
      Inr (case dilation m of None \<Rightarrow> m | Some d \<Rightarrow> m\<lparr>dilation := Some (tuple
                 (foldl (\<lambda>new_dilation ax. set2 ax (sint (get2 ax ssf)) new_dilation)
                        (1, 1) axis))\<rparr>) else Inl (AssertionError dilation_msg))"
  by (auto simp: set_dilation_def unit_dilation_def split: option.splits)

lemma remove_stride_fits:
  assumes "stride_fits m"
  shows "\<exists>r. remove_stride axis ssf m = Inr r"
proof (cases "stride m")
  case None
  then show ?thesis by (simp add: remove_stride_def)
next
  case (Some s)
  with assms have "fits_int64 (fst (as_pair s)) \<and> fits_int64 (snd (as_pair s))"
    by (cases s) (simp_all add: stride_fits_def as_pair_def)
  with Some show ?thesis by (simp add: remove_stride_def imul_def Let_def)
qed

lemma convert_module_fits:
  assumes "stride_fits m"
  shows "if unit_dilation m then \<exists>r. convert_module axis ssf m = Inr r
         else convert_module axis ssf m = Inl (AssertionError dilation_msg)"
proof (cases "unit_dilation m")
  case False
  then show ?thesis by (simp add: convert_module_def set_dilation_again)
next
  case True
  then obtain m1 where d: "set_dilation axis ssf m = Inr m1"
    by (simp add: set_dilation_again)
  from set_dilation_stride [OF d] assms have "stride_fits m1" by (simp add: stride_fits_def)
  from remove_stride_fits [OF this, of axis ssf] d True show ?thesis
    by (simp add: convert_module_def)
qed

lemma convert_module_stride_fits:
  assumes "convert_module axis ssf m = Inr (s', m')"
  shows "stride_fits m'"
proof -
  from assms obtain m1 where d: "set_dilation axis ssf m = Inr m1"
    and r: "remove_stride axis ssf m1 = Inr (s', m')"
    by (auto simp: convert_module_def split: sum.splits)
  show ?thesis
  proof (cases "stride m1")
    case None
    with remove_stride_None [OF r] show ?thesis by (simp add: stride_fits_def)
  next
    case (Some s)
    have one: "fits_int64 1" by (simp add: fits_int64_def)
    from remove_stride_Some [OF r Some]
      set2_foldl_const_fits [of fits_int64 "as_pair s" 1 axis] one
    show ?thesis by (simp add: stride_fits_def tuple_def)
  qed
qed

lemma convert_modules_fits:
  assumes "\<forall>m\<in>set ms. stride_fits m"
  shows "if \<forall>m\<in>set ms. unit_dilation m then \<exists>ms'. convert_modules axis ssf ms = Inr ms'
         else convert_modules axis ssf ms = Inl (AssertionError dilation_msg)"
  using assms
proof (induction ms arbitrary: ssf)
  case Nil
  then show ?case by simp
next
  case (Cons m ms)
  from Cons.prems have fm: "stride_fits m" and fms: "\<forall>m\<in>set ms. stride_fits m" by simp_all
  note head = convert_module_fits [OF fm, of axis ssf]
  show ?case
  proof (cases "unit_dilation m")
    case False
    with head show ?thesis by simp
  next
    case True
    with head obtain s1 m1 where c: "convert_module axis ssf m = Inr (s1, m1)" by auto
    from Cons.IH [OF fms, of s1] True c show ?thesis
      by (auto split: if_splits)
  qed
qed

lemma converted_stride_fits:
  assumes "convert_modules axis ssf ms = Inr ms'"
  shows "\<forall>m\<in>set ms'. stride_fits m"
proof
  fix m assume "m \<in> set ms'"
  then obtain k where k: "k < length ms'" and m: "m = ms' ! k" by (auto simp: in_set_conv_nth)
  from k convert_modules_length [OF assms] have "k < length ms" by simp
  from convert_modules_nth [OF assms this] m obtain s0 s' where
    "convert_module axis s0 (ms ! k) = Inr (s', m)" by blast
  then show "stride_fits m" by (rule convert_module_stride_fits)
qed

subsection \<open>The claims about the conversion\<close>

text \<open>
  Claim C1, as amended. In a chain of modules that all carry a stride and a dilation,
  converted without an exception, the dilation written onto module \<open>k\<close> on a selected
  axis \<open>a\<close> is the product of the strides of the modules before \<open>k\<close> on that axis
  (module \<open>k\<close>'s own stride excluded), reduced to a signed 64-bit integer as the NumPy
  array \<open>stride_so_far\<close> holds it; it is the product itself whenever the product lies
  in the signed 64-bit range.
\<close>

theorem dilation_is_upstream_stride_product:
  assumes "to_dense_prediction_model model axis = Inr model'"
    and "\<forall>m\<in>set model. stride m \<noteq> None \<and> dilation m \<noteq> None"
    and "int a + 2 \<in> set (axis_list axis)"
    and "k < length model"
  shows "dilation_on a (model' ! k) =
           Some (wrap_int64 (prod_list (map (stride_on a) (take k model)))) \<and>
         (fits_int64 (prod_list (map (stride_on a) (take k model))) \<longrightarrow>
          dilation_on a (model' ! k) = Some (prod_list (map (stride_on a) (take k model))))"
proof -
  from assms(2,4) have "dilation (model ! k) \<noteq> None" by simp
  from dilation_upstream [OF assms(1,3,4) this] show ?thesis
    by (simp add: wrap_int64_fits)
qed

theorem dilation_is_upstream_stride_product_witness:
  "to_dense_prediction_model
     [\<lparr>dilation = Some (Scalar 1), stride = Some (Scalar 2)\<rparr>,
      \<lparr>dilation = Some (Scalar 1), stride = Some (Pair 3 5)\<rparr>,
      \<lparr>dilation = Some (Pair 1 1), stride = Some (Scalar 1)\<rparr>] (Pair 2 3) =
   Inr [\<lparr>dilation = Some (Pair 1 1), stride = Some (Pair 1 1)\<rparr>,
        \<lparr>dilation = Some (Pair 2 2), stride = Some (Pair 1 1)\<rparr>,
        \<lparr>dilation = Some (Pair 6 10), stride = Some (Pair 1 1)\<rparr>] \<and>
   dilation_on 1 \<lparr>dilation = Some (Pair 6 10), stride = Some (Pair 1 1)\<rparr> = Some (2 * 5)"
proof -
  let ?model = "[\<lparr>dilation = Some (Scalar 1), stride = Some (Scalar 2)\<rparr>,
      \<lparr>dilation = Some (Scalar 1), stride = Some (Pair 3 5)\<rparr>,
      \<lparr>dilation = Some (Pair 1 1), stride = Some (Scalar 1)\<rparr>]"
  let ?model' = "[\<lparr>dilation = Some (Pair 1 1), stride = Some (Pair 1 1)\<rparr>,
        \<lparr>dilation = Some (Pair 2 2), stride = Some (Pair 1 1)\<rparr>,
        \<lparr>dilation = Some (Pair 6 10), stride = Some (Pair 1 1)\<rparr>]"
  have run: "to_dense_prediction_model ?model (Pair 2 3) = Inr ?model'"
    by (simp add: conv_eval)
  have all: "\<forall>m\<in>set ?model. stride m \<noteq> None \<and> dilation m \<noteq> None" by simp
  have sel: "int 1 + 2 \<in> set (axis_list (Pair 2 3))" by (simp add: axis_list_def)
  have k: "2 < length ?model" by simp
  from dilation_is_upstream_stride_product [OF run all sel k] run
  show ?thesis by (simp add: stride_on_def get2_def wrap_int64_def)
qed

text \<open>
  Claim C1 as stated fails where the product leaves the 64-bit range: after two modules
  of stride \<open>2\<^sup>3\<^sup>2\<close> the product of the upstream strides is \<open>2\<^sup>6\<^sup>4\<close>, and the third
  module receives the dilation 0.
\<close>

theorem dilation_product_overflow_counterexample:
  "to_dense_prediction_model
     [\<lparr>dilation = Some (Scalar 1), stride = Some (Scalar 4294967296)\<rparr>,
      \<lparr>dilation = Some (Scalar 1), stride = Some (Scalar 4294967296)\<rparr>,
      \<lparr>dilation = Some (Scalar 1), stride = Some (Scalar 1)\<rparr>] (Pair 2 3) =
   Inr [\<lparr>dilation = Some (Pair 1 1), stride = Some (Pair 1 1)\<rparr>,
        \<lparr>dilation = Some (Pair 4294967296 4294967296), stride = Some (Pair 1 1)\<rparr>,
        \<lparr>dilation = Some (Pair 0 0), stride = Some (Pair 1 1)\<rparr>] \<and>
   dilation_on 0 \<lparr>dilation = Some (Pair 0 0), stride = Some (Pair 1 1)\<rparr> \<noteq>
   Some (prod_list (map (stride_on 0)
     [\<lparr>dilation = Some (Scalar 1), stride = Some (Scalar 4294967296)\<rparr>,
      \<lparr>dilation = Some (Scalar 1), stride = Some (Scalar 4294967296)\<rparr>]))"
  by (simp add: conv_eval dilation_on_def stride_on_def)

text \<open>
  Claim C2. After a conversion for the axes 2 and 3 that raised no exception, every
  module that exposes a stride has the stride \<open>(1, 1)\<close>; the modules that expose a
  stride are the same as before.
\<close>

theorem stride_elimination:
  assumes conv: "to_dense_prediction_model model axis = Inr model'"
    and axes: "set (axis_list axis) = {2, 3}"
  shows "length model' = length model \<and>
         (\<forall>k<length model.
             (stride (model ! k) = None \<longrightarrow> stride (model' ! k) = None) \<and>
             (stride (model ! k) \<noteq> None \<longrightarrow> stride (model' ! k) = Some (Pair 1 1)))"
proof -
  let ?axis = "map (\<lambda>ax. nat (ax - 2)) (axis_list axis)"
  from conv have run: "convert_modules ?axis (1, 1) model = Inr model'"
    by (auto simp: to_dense_prediction_model_def split: if_splits)
  have sel: "set ?axis = {0, 1}" by (rule both_axes_selected [OF axes])
  have step: "(stride (model ! k) = None \<longrightarrow> stride (model' ! k) = None) \<and>
             (stride (model ! k) \<noteq> None \<longrightarrow> stride (model' ! k) = Some (Pair 1 1))"
    if k: "k < length model" for k
  proof -
    from convert_modules_nth [OF run k] obtain s0 s' where
      c: "convert_module ?axis s0 (model ! k) = Inr (s', model' ! k)"
      by blast
    then obtain m1 where d: "set_dilation ?axis s0 (model ! k) = Inr m1"
      and r: "remove_stride ?axis s0 m1 = Inr (s', model' ! k)"
      by (auto simp: convert_module_def split: sum.splits)
    note same = set_dilation_stride [OF d]
    show ?thesis
    proof (cases "stride (model ! k)")
      case None
      with remove_stride_None [OF r] same show ?thesis by simp
    next
      case (Some s)
      with same have "stride m1 = Some s" by simp
      from remove_stride_Some(1) [OF r this]
        foldl_set2_both [OF sel, of "1::int" "as_pair s"] Some
      show ?thesis by (simp add: tuple_def)
    qed
  qed
  from convert_modules_length [OF run] step show ?thesis by blast
qed

theorem stride_elimination_witness:
  "to_dense_prediction_model
     [\<lparr>dilation = Some (Scalar 1), stride = Some (Scalar 2)\<rparr>,
      \<lparr>dilation = None, stride = Some (Pair 3 5)\<rparr>,
      \<lparr>dilation = Some (Pair 1 1), stride = None\<rparr>] (Pair 2 3) =
   Inr [\<lparr>dilation = Some (Pair 1 1), stride = Some (Pair 1 1)\<rparr>,
        \<lparr>dilation = None, stride = Some (Pair 1 1)\<rparr>,
        \<lparr>dilation = Some (Pair 6 10), stride = None\<rparr>] \<and>
   stride \<lparr>dilation = None, stride = Some (Pair 1 1)\<rparr> = Some (Pair 1 1)"
proof -
  let ?model = "[\<lparr>dilation = Some (Scalar 1), stride = Some (Scalar 2)\<rparr>,
      \<lparr>dilation = None, stride = Some (Pair 3 5)\<rparr>,
      \<lparr>dilation = Some (Pair 1 1), stride = None\<rparr>]"
  let ?model' = "[\<lparr>dilation = Some (Pair 1 1), stride = Some (Pair 1 1)\<rparr>,
        \<lparr>dilation = None, stride = Some (Pair 1 1)\<rparr>,
        \<lparr>dilation = Some (Pair 6 10), stride = None\<rparr>]"
  have run: "to_dense_prediction_model ?model (Pair 2 3) = Inr ?model'"
    by (simp add: conv_eval)
  have axes: "set (axis_list (Pair 2 3)) = {2, 3}" by (simp add: axis_list_def)
  from stride_elimination [OF run axes] run show ?thesis by simp
qed

text \<open>
  Claim C6, as amended. After a conversion that raised no exception, a second
  conversion of the same graph raises the \<open>AssertionError\<close> of the dilation check
  (the specification's \<open>InvalidState\<close>) exactly when the first conversion left some
  module with a dilation that is not unit (neither \<open>1\<close> nor \<open>(1, 1)\<close>); when it left
  none, the second conversion raises nothing.
\<close>

theorem second_conversion:
  assumes "to_dense_prediction_model model axis = Inr model'"
  shows "if \<forall>m\<in>set model'. unit_dilation m
         then \<exists>model''. to_dense_prediction_model model' axis = Inr model''
         else to_dense_prediction_model model' axis = Inl (AssertionError dilation_msg)"
proof -
  let ?axis = "map (\<lambda>ax. nat (ax - 2)) (axis_list axis)"
  from assms have ok: "list_all (\<lambda>ax. ax \<in> set [2, 3]) (axis_list axis)"
    and run: "convert_modules ?axis (1, 1) model = Inr model'"
    by (auto simp: to_dense_prediction_model_def split: if_splits)
  from convert_modules_fits [OF converted_stride_fits [OF run], of ?axis "(1, 1)"] ok
  show ?thesis by (simp add: to_dense_prediction_model_def)
qed

theorem second_conversion_witness:
  "to_dense_prediction_model
     [\<lparr>dilation = Some (Scalar 1), stride = Some (Scalar 2)\<rparr>,
      \<lparr>dilation = Some (Scalar 1), stride = Some (Scalar 1)\<rparr>] (Pair 2 3) =
   Inr [\<lparr>dilation = Some (Pair 1 1), stride = Some (Pair 1 1)\<rparr>,
        \<lparr>dilation = Some (Pair 2 2), stride = Some (Pair 1 1)\<rparr>] \<and>
   to_dense_prediction_model
     [\<lparr>dilation = Some (Pair 1 1), stride = Some (Pair 1 1)\<rparr>,
      \<lparr>dilation = Some (Pair 2 2), stride = Some (Pair 1 1)\<rparr>] (Pair 2 3) =
   Inl (AssertionError dilation_msg)"
proof -
  let ?model = "[\<lparr>dilation = Some (Scalar 1), stride = Some (Scalar 2)\<rparr>,
      \<lparr>dilation = Some (Scalar 1), stride = Some (Scalar 1)\<rparr>]"
  let ?model' = "[\<lparr>dilation = Some (Pair 1 1), stride = Some (Pair 1 1)\<rparr>,
        \<lparr>dilation = Some (Pair 2 2), stride = Some (Pair 1 1)\<rparr>]"
  have run: "to_dense_prediction_model ?model (Pair 2 3) = Inr ?model'"
    by (simp add: conv_eval)
  have "\<not> (\<forall>m\<in>set ?model'. unit_dilation m)" by (simp add: unit_dilation_def)
  with second_conversion [OF run] run show ?thesis by simp
qed

text \<open>
  Claim C6 as stated fails for a single layer of stride 2: nothing precedes it, so the
  first conversion writes the dilation \<open>(1, 1)\<close>, and the second conversion passes the
  assertion and raises nothing.
\<close>

theorem second_conversion_counterexample:
  "to_dense_prediction_model
     [\<lparr>dilation = Some (Scalar 1), stride = Some (Scalar 2)\<rparr>] (Pair 2 3) =
   Inr [\<lparr>dilation = Some (Pair 1 1), stride = Some (Pair 1 1)\<rparr>] \<and>
   to_dense_prediction_model
     [\<lparr>dilation = Some (Pair 1 1), stride = Some (Pair 1 1)\<rparr>] (Pair 2 3) =
   Inr [\<lparr>dilation = Some (Pair 1 1), stride = Some (Pair 1 1)\<rparr>]"
  by (simp add: conv_eval)

section \<open>Properties of aggregate_probas\<close>

subsection \<open>Positions in the padded buffer\<close>

lemma row_lt: "i < S \<Longrightarrow> c < C \<Longrightarrow> i * C + c < S * (C::nat)"
proof -
  assume "i < S" "c < C"
  then have "i * C + c < (i + 1) * C" by simp
  also have "\<dots> \<le> S * C" using \<open>i < S\<close> by (intro mult_le_mono1) simp
  finally show ?thesis .
qed

lemma flat_index3: "flat_index [S, C, W] [i, c, t] = (i * C + c) * W + t"
  by (simp add: flat_index_def)

lemma flat_index2: "flat_index [L, C] [t, c] = t * C + c"
  by (simp add: flat_index_def)

lemma shift_bounds:
  assumes "0 \<le> (int S - 1) * r" and "i < S"
  shows "0 \<le> int i * r \<and> int i * r \<le> (int S - 1) * r"
proof (cases "i = 0")
  case True
  with assms show ?thesis by simp
next
  case False
  with assms(2) have S: "1 < int S" by simp
  with assms(1) have r: "0 \<le> r" by (simp add: zero_le_mult_iff)
  from assms(2) have "int i \<le> int S - 1" by simp
  then have "int i * r \<le> (int S - 1) * r" using r by (rule mult_right_mono)
  with r show ?thesis by simp
qed

lemma padded_nth:
  assumes "row < R" and "u < L"
  shows "map (\<lambda>p. if p mod L < W then xs ! ((p div L) * W + p mod L) else (0::real)) [0..<R * L]
           ! (row * L + u) = (if u < W then xs ! (row * W + u) else 0)"
proof -
  from assms have "row * L + u < (row + 1) * L" by simp
  also have "\<dots> \<le> R * L" using assms(1) by (intro mult_le_mono1) simp
  finally have lt: "row * L + u < R * L" .
  then show ?thesis using assms(2) by simp
qed

subsection \<open>Reading the shifted view of a C-ordered array\<close>

text \<open>
  In C order every read stays inside the buffer: a position before the start of a
  sequence falls into the zeros that pad the row before it.
\<close>

lemma view_get_shifted:
  fixes S C W L :: nat and r :: int
  assumes L_def: "L = W + nat ((int S - 1) * r)"
    and pad: "0 \<le> (int S - 1) * r"
    and i: "i < S" and c: "c < C" and t: "t < L"
  shows "view_get
           \<lparr>base = map (\<lambda>p. if p mod L < W then xs ! ((p div L) * W + p mod L) else 0)
                       [0..<S * C * L],
            vshape = [S, C, L], vstrides = [int C * int L - r * 1, int L, 1],
            memory = mem\<rparr> i c t =
         (if 0 \<le> int t - int i * r \<and> int t - int i * r < int W
          then xs ! ((i * C + c) * W + nat (int t - int i * r)) else 0)"
proof -
  let ?pd = "map (\<lambda>p. if p mod L < W then xs ! ((p div L) * W + p mod L) else 0) [0..<S * C * L]"
  define row where "row = i * C + c"
  define d where "d = int t - int i * r"
  define off where "off = int i * (int C * int L - r * 1) + int c * int L + int t * 1"
  have row: "row < S * C" unfolding row_def by (rule row_lt [OF i c])
  have off: "off = int row * int L + d"
    unfolding off_def row_def d_def by (simp add: algebra_simps)
  from shift_bounds [OF pad i] have ir: "0 \<le> int i * r" "int i * r \<le> (int S - 1) * r"
    by simp_all
  have L: "int L = int W + (int S - 1) * r" unfolding L_def using pad by simp
  have len: "length ?pd = S * C * L" by simp
  have get: "view_get \<lparr>base = ?pd, vshape = [S, C, L],
                 vstrides = [int C * int L - r * 1, int L, 1], memory = mem\<rparr> i c t =
             (if 0 \<le> off \<and> off < int (S * C * L) then ?pd ! nat off else mem off)"
    unfolding view_get_def off_def by (simp add: Let_def)
  show ?thesis
  proof (cases "0 \<le> d")
    case True
    define u where "u = nat d"
    from True have du: "d = int u" by (simp add: u_def)
    from ir(1) t have u: "u < L" unfolding u_def d_def by simp
    have offn: "off = int (row * L + u)" by (simp add: off du)
    have "row * L + u < (row + 1) * L" using u by simp
    also have "\<dots> \<le> S * C * L" using row by (intro mult_le_mono1) simp
    finally have inb: "row * L + u < S * C * L" .
    have val: "?pd ! (row * L + u) = (if u < W then xs ! (row * W + u) else 0)"
      by (rule padded_nth [OF row u])
    have cond: "(0 \<le> d \<and> d < int W) = (u < W)" using True by (simp add: du)
    from get offn inb val cond show ?thesis
      by (simp add: d_def [symmetric] row_def [symmetric] u_def [symmetric] del: of_nat_add of_nat_mult)
  next
    case False
    then have neg: "d < 0" by simp
    have "i \<noteq> 0" using neg unfolding d_def by (cases "i = 0") simp_all
    then have "1 \<le> i * C" using c by (cases C) simp_all
    then obtain row' where row': "row = Suc row'" unfolding row_def by (cases "i * C + c") simp_all
    define u where "u = nat (int L + d)"
    have lo: "int W \<le> int L + d" using ir(2) L unfolding d_def by simp
    then have du: "int L + d = int u" unfolding u_def by simp
    have u: "u < L" using neg du by simp
    have uW: "W \<le> u" using lo du by simp
    have offn: "off = int (row' * L + u)"
      unfolding off row' using du by (simp add: algebra_simps)
    from row row' have row'lt: "row' < S * C" by simp
    have "row' * L + u < (row' + 1) * L" using u by simp
    also have "\<dots> \<le> S * C * L" using row'lt by (intro mult_le_mono1) simp
    finally have inb: "row' * L + u < S * C * L" .
    have val: "?pd ! (row' * L + u) = 0"
      using padded_nth [OF row'lt u, of W xs] uW by simp
    from get offn inb val neg show ?thesis
      by (simp add: d_def [symmetric] del: of_nat_add of_nat_mult)
  qed
qed

subsection \<open>Reading the shifted view of a Fortran-ordered array\<close>

text \<open>
  In Fortran order a read is right where the sequence has started (\<open>i * r \<le> t\<close>): it
  finds the element \<open>[i, c, t - i * r]\<close> of the padded array. Before the start of a
  sequence the position is negative, and the read leaves the buffer.
\<close>

lemma fortran_position:
  fixes S C L i c u :: nat
  assumes i: "i < S" and c: "c < C" and u: "u < L"
  shows "i + c * S + u * (S * C) < S * C * L"
    and "(i + c * S + u * (S * C)) mod S = i"
    and "(i + c * S + u * (S * C)) div S mod C = c"
    and "(i + c * S + u * (S * C)) div (S * C) = u"
proof -
  let ?q = "i + c * S + u * (S * C)"
  have q: "?q = i + S * (c + C * u)" by (simp add: algebra_simps)
  have "c + C * u < C * (u + 1)" using c by simp
  also have "\<dots> \<le> C * L" using u by (intro mult_le_mono2) simp
  finally have cu: "c + C * u < C * L" .
  have "?q < S * (c + C * u + 1)" unfolding q using i by simp
  also have "\<dots> \<le> S * (C * L)" using cu by (intro mult_le_mono2) simp
  finally show "?q < S * C * L" by (simp add: mult.assoc)
  show "?q mod S = i" unfolding q using i by simp
  have d: "?q div S = c + C * u" unfolding q using i by simp
  show "?q div S mod C = c" unfolding d using c by simp
  have "?q div (S * C) = ?q div S div C" by (simp add: div_mult2_eq)
  also have "\<dots> = u" unfolding d using c by simp
  finally show "?q div (S * C) = u" .
qed

lemma view_get_fortran:
  fixes S C L :: nat and r :: int
  assumes i: "i < S" and c: "c < C" and t: "t < L"
    and started: "int i * r \<le> int t" and ir: "0 \<le> int i * r"
  shows "view_get
           \<lparr>base = map (\<lambda>q. f (q mod S) (q div S mod C) (q div (S * C))) [0..<S * C * L],
            vshape = [S, C, L], vstrides = [1 - r * (int S * int C), int S, int S * int C],
            memory = mem\<rparr> i c t =
         f i c (nat (int t - int i * r))"
proof -
  define u where "u = nat (int t - int i * r)"
  from started have du: "int t - int i * r = int u" by (simp add: u_def)
  from ir t du have u: "u < L" by linarith
  define q where "q = i + c * S + u * (S * C)"
  note pos = fortran_position [OF i c u, folded q_def]
  have "int i * (1 - r * (int S * int C)) + int c * int S + int t * (int S * int C) =
        int i + int c * int S + (int t - int i * r) * (int S * int C)"
    by (simp add: algebra_simps)
  also have "\<dots> = int q" by (simp add: du q_def)
  finally have off: "int i * (1 - r * (int S * int C)) + int c * int S + int t * (int S * int C) =
                     int q" .
  show ?thesis
    unfolding view_get_def
    using pos by (simp add: Let_def off u_def [symmetric] del: of_nat_add of_nat_mult)
qed

subsection \<open>The view that _pad_shift_array returns\<close>

lemma pad_shift_array_c_order:
  assumes sh: "shape lp = [S, C, W]" and pad: "0 \<le> (int S - 1) * r" and c_order: "\<not> fnc lp"
    and L: "L = W + nat ((int S - 1) * r)"
  shows "pad_shift_array mem lp r =
         Inr \<lparr>base = map (\<lambda>p. if p mod L < W then data lp ! ((p div L) * W + p mod L) else 0)
                         [0..<S * C * L],
              vshape = [S, C, L], vstrides = [int C * int L - r * 1, int L, 1],
              memory = mem\<rparr>"
  using pad c_order unfolding L
  by (simp add: pad_shift_array_def np_pad_def sh Let_def strides_def as_strided_def
      buffer_def)

lemma pad_shift_array_fortran:
  assumes sh: "shape lp = [S, C, W]" and pad: "0 \<le> (int S - 1) * r" and f_order: "fnc lp"
    and L: "L = W + nat ((int S - 1) * r)"
  shows "pad_shift_array mem lp r =
         Inr \<lparr>base = map (\<lambda>q.
                  map (\<lambda>p. if p mod L < W then data lp ! ((p div L) * W + p mod L) else 0)
                      [0..<S * C * L] ! ((q mod S * C + q div S mod C) * L + q div (S * C)))
                  [0..<S * C * L],
              vshape = [S, C, L], vstrides = [1 - r * (int S * int C), int S, int S * int C],
              memory = mem\<rparr>"
  using pad f_order unfolding L
  by (simp add: pad_shift_array_def np_pad_def sh Let_def strides_def as_strided_def
      buffer_def item_def flat_index3)

text \<open>
  In either order: a view of shape \<open>(S, C, L)\<close> whose element \<open>[i, c, t]\<close> is the
  contribution of sequence \<open>i\<close>, for every position in C order and for the positions
  from the start of the sequence on in Fortran order.
\<close>

lemma pad_shift_array_view:
  assumes sh: "shape lp = [S, C, W]" and pad: "0 \<le> (int S - 1) * r"
  shows "\<exists>v. pad_shift_array mem lp r = Inr v \<and>
              vshape v = [S, C, W + nat ((int S - 1) * r)] \<and>
              (\<forall>i<S. \<forall>c<C. \<forall>t<W + nat ((int S - 1) * r).
                 \<not> fnc lp \<or> int i * r \<le> int t \<longrightarrow>
                 view_get v i c t = shifted_item lp r i c t)"
proof (cases "fnc lp")
  case False
  let ?L = "W + nat ((int S - 1) * r)"
  let ?v = "\<lparr>base = map (\<lambda>p. if p mod ?L < W then data lp ! ((p div ?L) * W + p mod ?L) else 0)
                         [0..<S * C * ?L],
              vshape = [S, C, ?L], vstrides = [int C * int ?L - r * 1, int ?L, 1],
              memory = mem\<rparr>"
  have ps: "pad_shift_array mem lp r = Inr ?v"
    by (rule pad_shift_array_c_order [OF sh pad False refl])
  have cell: "view_get ?v i c t = shifted_item lp r i c t" if "i < S" "c < C" "t < ?L" for i c t
  proof -
    have "view_get ?v i c t =
          (if 0 \<le> int t - int i * r \<and> int t - int i * r < int W
           then data lp ! ((i * C + c) * W + nat (int t - int i * r)) else 0)"
      by (rule view_get_shifted [OF refl pad that, of "data lp" mem])
    also have "\<dots> = shifted_item lp r i c t"
      by (simp add: shifted_item_def item_def sh flat_index3)
    finally show ?thesis .
  qed
  show ?thesis
  proof (rule exI [of _ ?v], intro conjI allI impI)
    show "pad_shift_array mem lp r = Inr ?v" by (rule ps)
    show "vshape ?v = [S, C, ?L]" by simp
    fix i c t assume "i < S" "c < C" "t < ?L"
    then show "view_get ?v i c t = shifted_item lp r i c t" by (rule cell)
  qed
next
  case True
  let ?L = "W + nat ((int S - 1) * r)"
  let ?pd = "map (\<lambda>p. if p mod ?L < W then data lp ! ((p div ?L) * W + p mod ?L) else 0)
                 [0..<S * C * ?L]"
  let ?v = "\<lparr>base = map (\<lambda>q. ?pd ! ((q mod S * C + q div S mod C) * ?L + q div (S * C)))
                         [0..<S * C * ?L],
              vshape = [S, C, ?L], vstrides = [1 - r * (int S * int C), int S, int S * int C],
              memory = mem\<rparr>"
  have ps: "pad_shift_array mem lp r = Inr ?v"
    by (rule pad_shift_array_fortran [OF sh pad True refl])
  have cell: "view_get ?v i c t = shifted_item lp r i c t"
    if i: "i < S" and c: "c < C" and t: "t < ?L" and started: "int i * r \<le> int t" for i c t
  proof -
    from shift_bounds [OF pad i] have ir: "0 \<le> int i * r" by simp
    define u where "u = nat (int t - int i * r)"
    from started have du: "int t - int i * r = int u" by (simp add: u_def)
    from ir t du have u: "u < ?L" by linarith
    have "view_get ?v i c t = ?pd ! ((i * C + c) * ?L + u)"
      unfolding u_def
      by (rule view_get_fortran [OF i c t started ir,
            of "\<lambda>i c u. ?pd ! ((i * C + c) * ?L + u)" mem])
    also have "\<dots> = (if u < W then data lp ! ((i * C + c) * W + u) else 0)"
      by (rule padded_nth [OF row_lt [OF i c] u])
    also have "\<dots> = shifted_item lp r i c t"
      by (simp add: shifted_item_def item_def sh flat_index3 du u_def [symmetric])
    finally show ?thesis .
  qed
  show ?thesis
  proof (rule exI [of _ ?v], intro conjI allI impI)
    show "pad_shift_array mem lp r = Inr ?v" by (rule ps)
    show "vshape ?v = [S, C, ?L]" by simp
    fix i c t assume i: "i < S" and c: "c < C" and t: "t < ?L"
      and "\<not> fnc lp \<or> int i * r \<le> int t"
    with True have "int i * r \<le> int t" by simp
    with i c t show "view_get ?v i c t = shifted_item lp r i c t" by (rule cell)
  qed
qed

subsection \<open>The sum over the sequences\<close>

lemma sum_axis0_T_shape: "vshape v = [S, C, L] \<Longrightarrow> shape (sum_axis0_T v) = [L, C]"
  by (simp add: sum_axis0_T_def Let_def)

lemma sum_axis0_T_well_formed: "well_formed (sum_axis0_T v)"
  by (simp add: sum_axis0_T_def Let_def well_formed_def)

lemma sum_axis0_T_item:
  assumes sh: "vshape v = [S, C, L]" and t: "t < L" and c: "c < C"
  shows "item (sum_axis0_T v) [t, c] = (\<Sum>i = 0..<S. view_get v i c t)"
proof -
  have "t * C + c < (t + 1) * C" using c by simp
  also have "\<dots> \<le> L * C" using t by (intro mult_le_mono1) simp
  finally have lt: "t * C + c < L * C" .
  have "item (sum_axis0_T v) [t, c] = sum_list (map (\<lambda>i. view_get v i c t) [0..<S])"
    using lt c by (simp add: item_def sum_axis0_T_def Let_def sh flat_index2)
  also have "\<dots> = (\<Sum>i = 0..<S. view_get v i c t)"
    by (simp add: interv_sum_list_conv_sum_set_nat)
  finally show ?thesis .
qed

lemma sum_shifted_item_overlap:
  assumes "shape a = [S, C, W]"
  shows "(\<Sum>i = 0..<S. shifted_item a r i c t) = overlap_sum a r t c"
proof -
  have "overlap_sum a r t c =
        (\<Sum>i \<in> {i \<in> {0..<S}. 0 \<le> int t - int i * r \<and> int t - int i * r < int W}.
           item a [i, c, nat (int t - int i * r)])"
    by (simp add: overlap_sum_def covering_def assms)
  also have "\<dots> = (\<Sum>i = 0..<S. if 0 \<le> int t - int i * r \<and> int t - int i * r < int W
                      then item a [i, c, nat (int t - int i * r)] else 0)"
    by (rule sum.inter_filter) simp
  also have "\<dots> = (\<Sum>i = 0..<S. shifted_item a r i c t)"
    by (simp add: shifted_item_def assms)
  finally show ?thesis by simp
qed

subsection \<open>log_softmax\<close>

lemma log_softmax_Inr:
  "log_softmax x = Inr lp \<Longrightarrow>
   shape lp = shape x \<and> length (data lp) = length (data x) \<and> mem_order lp = mem_order x"
  by (auto simp: log_softmax_def Let_def split: list.splits if_splits)

lemma log_softmax_defined:
  "shape x = d0 # d1 # rest \<Longrightarrow> 0 < d1 \<Longrightarrow> \<exists>lp. log_softmax x = Inr lp"
  by (simp add: log_softmax_def Let_def)

lemma log_softmax_cases:
  "log_softmax x =
     (if length (shape x) < 2 then Inl AxisError
      else if shape x ! 1 = 0 then Inl ValueError
      else Inr (x\<lparr>data := data (projr (log_softmax x))\<rparr>))"
  by (auto simp: log_softmax_def Let_def split: list.splits)

text \<open>
  The maximum that SciPy subtracts cancels: each log-probability is the logit minus the
  logarithm of the sum of the exponentials of the logits of all classes.
\<close>

lemma sum_exp_shift:
  fixes g :: "nat \<Rightarrow> real"
  assumes "0 < C"
  shows "ln (\<Sum>j = 0..<C. exp (g j - m)) = ln (\<Sum>j = 0..<C. exp (g j)) - m"
proof -
  have pos: "0 < (\<Sum>j = 0..<C. exp (g j))"
    using assms by (intro sum_pos) simp_all
  have "(\<Sum>j = 0..<C. exp (g j - m)) = (\<Sum>j = 0..<C. exp (g j)) / exp m"
    by (simp add: exp_diff sum_divide_distrib)
  then show ?thesis using pos by (simp add: ln_div)
qed

lemma log_softmax_item:
  assumes sh: "shape x = [S, C, W]" and wf: "well_formed x"
    and lp: "log_softmax x = Inr lp" and i: "i < S" and c: "c < C" and t: "t < W"
  shows "item lp [i, c, t] =
         item x [i, c, t] - ln (\<Sum>j = 0..<C. exp (item x [i, j, t]))"
proof -
  define p where "p = (i * C + c) * W + t"
  from c have C: "0 < C" by simp
  have cw: "c * W + t < C * W"
  proof -
    have "c * W + t < (c + 1) * W" using t by simp
    also have "\<dots> \<le> C * W" using c by (intro mult_le_mono1) simp
    finally show ?thesis .
  qed
  have p_alt: "p = i * (C * W) + (c * W + t)" by (simp add: p_def algebra_simps)
  have "p < (i + 1) * (C * W)" unfolding p_alt using cw by simp
  also have "\<dots> \<le> S * (C * W)" using i by (intro mult_le_mono1) simp
  finally have plt: "p < length (data x)" using wf sh by (simp add: well_formed_def)
  have pdiv: "p div (C * W) = i"
  proof -
    define N where "N = C * W"
    from cw have "c * W + t < N" by (simp add: N_def)
    then have "(i * N + (c * W + t)) div N = i" by simp
    then show ?thesis by (simp add: p_alt N_def)
  qed
  have pmod: "p mod W = t" unfolding p_def using t by simp
  let ?col = "map (\<lambda>j. data x ! ((i * C + j) * W + t)) [0..<C]"
  let ?m = "Max (set ?col)"
  from lp sh C have "data lp = map (\<lambda>p.
                     let i = p div (C * W);
                         k = p mod W;
                         col = map (\<lambda>j. data x ! ((i * C + j) * W + k)) [0..<C];
                         x_max = Max (set col);
                         tmp = data x ! p - x_max
                     in tmp - ln (sum_list (map (\<lambda>v. exp (v - x_max)) col)))
                  [0..<length (data x)]"
    and shlp: "shape lp = [S, C, W]"
    by (auto simp: log_softmax_def Let_def)
  with plt have "data lp ! p = data x ! p - ?m - ln (sum_list (map (\<lambda>v. exp (v - ?m)) ?col))"
    by (simp add: Let_def pdiv pmod)
  also have "sum_list (map (\<lambda>v. exp (v - ?m)) ?col) =
             (\<Sum>j = 0..<C. exp (data x ! ((i * C + j) * W + t) - ?m))"
    by (simp add: interv_sum_list_conv_sum_set_nat comp_def)
  also have "ln \<dots> = ln (\<Sum>j = 0..<C. exp (data x ! ((i * C + j) * W + t))) - ?m"
    by (rule sum_exp_shift [OF C])
  finally have "data lp ! p = data x ! p - ln (\<Sum>j = 0..<C. exp (data x ! ((i * C + j) * W + t)))"
    by simp
  then show ?thesis
    by (simp add: item_def sh shlp flat_index_def p_def)
qed

lemma LogitSequenceBatch_dims:
  assumes "LogitSequenceBatch x"
  obtains S C W where "shape x = [S, C, W]" "1 \<le> S" "1 \<le> C" "1 \<le> W"
proof -
  from assms have "length (shape x) = 3" and all: "list_all (\<lambda>d. 1 \<le> d) (shape x)"
    by (simp_all add: LogitSequenceBatch_def)
  then obtain S C W where sh: "shape x = [S, C, W]"
    by (auto simp: length_Suc_conv numeral_3_eq_3)
  with all have "1 \<le> S" "1 \<le> C" "1 \<le> W" by simp_all
  with sh show ?thesis by (rule that)
qed

subsection \<open>The whole function\<close>

text \<open>
  For a three-dimensional array with a class and a padding that is not negative,
  \<open>aggregate_probas\<close> returns a well-formed array of shape \<open>((S - 1) * r + W, C)\<close>
  whose entry \<open>[t, c]\<close> is the sum over the sequences of what the view holds.
\<close>

lemma aggregate_probas_returns:
  assumes lp: "log_softmax x = Inr lp" and sh: "shape x = [S, C, W]"
    and pad: "0 \<le> (int S - 1) * r"
  shows "\<exists>v. vshape v = [S, C, W + nat ((int S - 1) * r)] \<and>
              aggregate_probas mem x r = Inr (sum_axis0_T v) \<and>
              (\<forall>i<S. \<forall>c<C. \<forall>t<W + nat ((int S - 1) * r).
                 \<not> fnc x \<or> int i * r \<le> int t \<longrightarrow>
                 view_get v i c t = shifted_item lp r i c t)"
proof -
  from log_softmax_Inr [OF lp] sh have shlp: "shape lp = [S, C, W]"
    and "mem_order lp = mem_order x" by simp_all
  then have f: "fnc lp = fnc x" by (simp add: fnc_def sh)
  from pad_shift_array_view [OF shlp pad, of mem] obtain v where
    "pad_shift_array mem lp r = Inr v" "vshape v = [S, C, W + nat ((int S - 1) * r)]"
    "\<forall>i<S. \<forall>c<C. \<forall>t<W + nat ((int S - 1) * r).
        \<not> fnc lp \<or> int i * r \<le> int t \<longrightarrow> view_get v i c t = shifted_item lp r i c t"
    by blast
  with lp f show ?thesis by (auto simp: aggregate_probas_def)
qed

text \<open>
  The overlap sum of the specification, for logits that are not in Fortran order: the
  shape of the output and every entry of it.
\<close>

lemma aggregate_overlap_sum_c_order:
  assumes batch: "LogitSequenceBatch logits" and sh: "shape logits = [S, C, W]"
    and c_order: "\<not> fnc logits" and strd: "1 \<le> strd"
  shows "\<exists>log_probas out.
           log_softmax logits = Inr log_probas \<and>
           aggregate_probas mem logits strd = Inr out \<and> well_formed out \<and>
           shape out = [W + nat ((int S - 1) * strd), C] \<and>
           (\<forall>t < W + nat ((int S - 1) * strd). \<forall>c < C.
              item out [t, c] = overlap_sum log_probas strd t c)"
proof -
  from batch sh have S: "1 \<le> S" and C: "1 \<le> C" by (simp_all add: LogitSequenceBatch_def)
  from log_softmax_defined [OF sh] C obtain lp where lp: "log_softmax logits = Inr lp" by auto
  from log_softmax_Inr [OF lp] sh have shlp: "shape lp = [S, C, W]" by simp
  from S strd have pad: "0 \<le> (int S - 1) * strd" by simp
  let ?L = "W + nat ((int S - 1) * strd)"
  from aggregate_probas_returns [OF lp sh pad, of mem] c_order obtain v where
    v: "vshape v = [S, C, ?L]" and agg: "aggregate_probas mem logits strd = Inr (sum_axis0_T v)"
    and cell: "\<And>i c t. i < S \<Longrightarrow> c < C \<Longrightarrow> t < ?L \<Longrightarrow>
                 view_get v i c t = shifted_item lp strd i c t"
    by auto
  have "item (sum_axis0_T v) [t, c] = overlap_sum lp strd t c" if t: "t < ?L" and c: "c < C" for t c
  proof -
    have "item (sum_axis0_T v) [t, c] = (\<Sum>i = 0..<S. view_get v i c t)"
      by (rule sum_axis0_T_item [OF v t c])
    also have "\<dots> = (\<Sum>i = 0..<S. shifted_item lp strd i c t)"
      by (rule sum.cong) (simp_all add: cell c t)
    also have "\<dots> = overlap_sum lp strd t c" by (rule sum_shifted_item_overlap [OF shlp])
    finally show ?thesis .
  qed
  with lp agg sum_axis0_T_shape [OF v] show ?thesis
    by (simp add: sum_axis0_T_well_formed)
qed

subsection \<open>Worked examples\<close>

text \<open>
  The example of the specification: two sequences, one class, two windows, stride 1,
  all logits 0, in C order. The log-probability of a single class is 0, and the output
  has the shape \<open>(3, 1)\<close> and the values 0, whatever the memory around the buffer holds.
\<close>

lemma upt_examples:
  "[0..<1] = [0]" "[0..<2] = [0, 1]" "[0..<3] = [0, 1, 2]" "[0..<4] = [0, 1, 2, 3]"
  "[0..<6] = [0, 1, 2, 3, 4, 5]" "[0..<12] = [0, 1, 2, 3, 4, 5, 6, 7, 8, 9, 10, 11]"
  by (simp_all add: upt_rec)

lemma log_softmax_example:
  "log_softmax \<lparr>shape = [2, 1, 2], data = [0, 0, 0, 0], mem_order = ord\<rparr> =
   Inr \<lparr>shape = [2, 1, 2], data = [0, 0, 0, 0], mem_order = ord\<rparr>"
  by (simp add: log_softmax_def upt_examples Let_def)

lemma aggregate_probas_example:
  "aggregate_probas mem \<lparr>shape = [2, 1, 2], data = [0, 0, 0, 0], mem_order = C_contiguous\<rparr> 1 =
   Inr \<lparr>shape = [3, 1], data = [0, 0, 0]\<rparr>"
  unfolding aggregate_probas_def log_softmax_example
  by (simp add: pad_shift_array_def np_pad_def strides_def buffer_def as_strided_def fnc_def
      sum_axis0_T_def view_get_def upt_examples Let_def)

text \<open>
  Two sequences of two classes and two windows, stride 1, in C order: the middle
  position receives the second window of sequence 0 and the first window of sequence 1.
\<close>

lemma pad_shift_array_example:
  "pad_shift_array mem
     \<lparr>shape = [2, 2, 2], data = [1, 2, 3, 4, 5, 6, 7, 8], mem_order = C_contiguous\<rparr> 1 =
   Inr \<lparr>base = [1, 2, 0, 3, 4, 0, 5, 6, 0, 7, 8, 0], vshape = [2, 2, 3],
        vstrides = [5, 3, 1], memory = mem\<rparr>"
  by (simp add: pad_shift_array_def np_pad_def strides_def buffer_def as_strided_def fnc_def
      upt_examples Let_def)

lemma sum_axis0_T_example:
  "sum_axis0_T \<lparr>base = [1, 2, 0, 3, 4, 0, 5, 6, 0, 7, 8, 0], vshape = [2, 2, 3],
                vstrides = [5, 3, 1], memory = mem\<rparr> =
   \<lparr>shape = [3, 2], data = [1, 3, 2 + 5, 4 + 7, 6, 8]\<rparr>"
  by (simp add: sum_axis0_T_def view_get_def upt_examples Let_def)

text \<open>
  The same logits as in the first example, in Fortran order: the padded array is
  allocated in Fortran order, its strides are \<open>(1, 2, 2)\<close>, the new strides are
  \<open>(-1, 2, 2)\<close>, and the element \<open>[1, 0, 0]\<close> of the view lies one element before the
  buffer. Position 0 of the output receives what the memory holds there.
\<close>

lemma pad_shift_array_fortran_example:
  "pad_shift_array mem
     \<lparr>shape = [2, 1, 2], data = [0, 0, 0, 0], mem_order = F_contiguous\<rparr> 1 =
   Inr \<lparr>base = [0, 0, 0, 0, 0, 0], vshape = [2, 1, 3], vstrides = [- 1, 2, 2],
        memory = mem\<rparr>"
  by (simp add: pad_shift_array_def np_pad_def strides_def buffer_def as_strided_def fnc_def
      item_def flat_index_def upt_examples Let_def)

lemma aggregate_probas_fortran_example:
  "aggregate_probas mem \<lparr>shape = [2, 1, 2], data = [0, 0, 0, 0], mem_order = F_contiguous\<rparr> 1 =
   Inr \<lparr>shape = [3, 1], data = [mem (- 1), 0, 0]\<rparr>"
  unfolding aggregate_probas_def log_softmax_example
  by (simp add: pad_shift_array_def np_pad_def strides_def buffer_def as_strided_def fnc_def
      item_def flat_index_def sum_axis0_T_def view_get_def upt_examples Let_def)

lemma overlap_sum_example:
  "overlap_sum \<lparr>shape = [2, 1, 2], data = [0, 0, 0, 0], mem_order = ord\<rparr> 1 0 0 = 0"
proof -
  have "covering 2 2 1 0 = {0}" by (auto simp: covering_def)
  then show ?thesis by (simp add: overlap_sum_def item_def flat_index_def)
qed

subsection \<open>The claims about the aggregation\<close>

text \<open>
  Claim C3: for every three-dimensional logits array and every stride of at least 1,
  the entry of the output at dense position \<open>t\<close> and class \<open>c\<close> is the sum, over the
  sequences \<open>i\<close> with \<open>0 \<le> t - i * stride < n_windows\<close>, of
  \<open>log_softmax(logits)[i, c, t - i * stride]\<close>, and the other sequences contribute 0.
  The code does so for logits in C order (\<open>aggregate_overlap_sum_c_order\<close>). For
  logits in Fortran order it does not: \<open>_pad_shift_array\<close> takes the strides of the
  padded array as they are, and a position before the start of a sequence is read
  from the memory before the buffer. With two sequences, one class, two windows, all
  logits 0 and stride 1, and the value 1 in the memory before the buffer, the entry
  at position 0 is 1, where the sum over the covering sequences is 0.
\<close>

theorem aggregate_fortran_order_reads_memory:
  "log_softmax \<lparr>shape = [2, 1, 2], data = [0, 0, 0, 0], mem_order = F_contiguous\<rparr> =
     Inr \<lparr>shape = [2, 1, 2], data = [0, 0, 0, 0], mem_order = F_contiguous\<rparr> \<and>
   aggregate_probas (\<lambda>off. 1)
     \<lparr>shape = [2, 1, 2], data = [0, 0, 0, 0], mem_order = F_contiguous\<rparr> 1 =
     Inr \<lparr>shape = [3, 1], data = [1, 0, 0]\<rparr> \<and>
   item \<lparr>shape = [3, 1], data = [1, 0, 0]\<rparr> [0, 0] \<noteq>
     overlap_sum \<lparr>shape = [2, 1, 2], data = [0, 0, 0, 0], mem_order = F_contiguous\<rparr> 1 0 0"
proof (intro conjI)
  show "log_softmax \<lparr>shape = [2, 1, 2], data = [0, 0, 0, 0], mem_order = F_contiguous\<rparr> =
     Inr \<lparr>shape = [2, 1, 2], data = [0, 0, 0, 0], mem_order = F_contiguous\<rparr>"
    by (rule log_softmax_example)
  show "aggregate_probas (\<lambda>off. 1)
     \<lparr>shape = [2, 1, 2], data = [0, 0, 0, 0], mem_order = F_contiguous\<rparr> 1 =
     Inr \<lparr>shape = [3, 1], data = [1, 0, 0]\<rparr>"
    by (rule aggregate_probas_fortran_example)
  have "item \<lparr>shape = [3, 1], data = [1, 0, 0]\<rparr> [0, 0] = 1"
    by (simp add: item_def flat_index_def)
  then show "item \<lparr>shape = [3, 1], data = [1, 0, 0]\<rparr> [0, 0] \<noteq>
     overlap_sum \<lparr>shape = [2, 1, 2], data = [0, 0, 0, 0], mem_order = F_contiguous\<rparr> 1 0 0"
    unfolding overlap_sum_example by simp
qed

text \<open>
  Claim C4. For a logits array of shape \<open>(S, C, W)\<close> and a stride \<open>r\<close> of at least 1,
  the output of \<open>aggregate_probas\<close> has the shape \<open>((S - 1) * r + W, C)\<close>.
\<close>

theorem aggregate_output_shape:
  assumes "LogitSequenceBatch logits" and "shape logits = [S, C, W]" and "1 \<le> r"
  shows "\<exists>out. aggregate_probas mem logits r = Inr out \<and> well_formed out \<and>
           length (shape out) = 2 \<and>
           int (shape out ! 0) = (int S - 1) * r + int W \<and> shape out ! 1 = C"
proof -
  from assms(1,2) have S: "1 \<le> S" and C: "1 \<le> C" by (simp_all add: LogitSequenceBatch_def)
  from log_softmax_defined [OF assms(2)] C obtain lp where lp: "log_softmax logits = Inr lp"
    by auto
  from S assms(3) have pad: "0 \<le> (int S - 1) * r" by simp
  from aggregate_probas_returns [OF lp assms(2) pad, of mem] obtain v where
    v: "vshape v = [S, C, W + nat ((int S - 1) * r)]"
    and agg: "aggregate_probas mem logits r = Inr (sum_axis0_T v)"
    by blast
  from agg sum_axis0_T_shape [OF v] pad show ?thesis
    by (simp add: sum_axis0_T_well_formed)
qed

theorem aggregate_output_shape_witness:
  "LogitSequenceBatch \<lparr>shape = [2, 1, 2], data = [0, 0, 0, 0], mem_order = F_contiguous\<rparr> \<and>
   (\<exists>out. aggregate_probas (\<lambda>off. 0)
             \<lparr>shape = [2, 1, 2], data = [0, 0, 0, 0], mem_order = F_contiguous\<rparr> 3 = Inr out \<and>
      well_formed out \<and> length (shape out) = 2 \<and> shape out ! 0 = 5 \<and> shape out ! 1 = 1)"
proof -
  have batch:
    "LogitSequenceBatch \<lparr>shape = [2, 1, 2], data = [0, 0, 0, 0], mem_order = F_contiguous\<rparr>"
    by (simp add: LogitSequenceBatch_def well_formed_def)
  have sh: "shape \<lparr>shape = [2, 1, 2], data = [0, 0, 0, 0], mem_order = F_contiguous\<rparr> = [2, 1, 2]"
    by simp
  have r: "(1::int) \<le> 3" by simp
  from aggregate_output_shape [OF batch sh r, of "\<lambda>off. 0"] batch show ?thesis by auto
qed

text \<open>
  Claim C5. For a logits array with exactly one sequence and any stride,
  \<open>aggregate_probas\<close> returns the \<open>log_softmax\<close> of the logits over axis 1, transposed
  to the shape \<open>(n_windows, n_classes)\<close>.
\<close>

theorem aggregate_single_sequence:
  assumes "LogitSequenceBatch logits" and "shape logits ! 0 = 1"
  shows "\<exists>log_probas out.
           log_softmax logits = Inr log_probas \<and>
           aggregate_probas mem logits strd = Inr out \<and> well_formed out \<and>
           shape out = [shape logits ! 2, shape logits ! 1] \<and>
           (\<forall>t < shape logits ! 2. \<forall>c < shape logits ! 1.
              item out [t, c] = item log_probas [0, c, t])"
proof -
  from assms(1) obtain S C W where sh0: "shape logits = [S, C, W]" and C: "1 \<le> C"
    by (rule LogitSequenceBatch_dims)
  with assms(2) have sh: "shape logits = [1, C, W]" by simp
  from log_softmax_defined [OF sh] C obtain lp where lp: "log_softmax logits = Inr lp" by auto
  from log_softmax_Inr [OF lp] sh have shlp: "shape lp = [1, C, W]" by simp
  have pad: "0 \<le> (int 1 - 1) * strd" by simp
  from aggregate_probas_returns [OF lp sh pad, of mem] obtain v where
    v: "vshape v = [1, C, W]" and agg: "aggregate_probas mem logits strd = Inr (sum_axis0_T v)"
    and cell: "\<And>c t. c < C \<Longrightarrow> t < W \<Longrightarrow> view_get v 0 c t = shifted_item lp strd 0 c t"
    by auto
  have "item (sum_axis0_T v) [t, c] = item lp [0, c, t]" if "t < W" "c < C" for t c
    using that sum_axis0_T_item [OF v, of t c] cell [of c t]
    by (simp add: shifted_item_def shlp)
  with lp agg sum_axis0_T_shape [OF v] sh show ?thesis
    by (simp add: sum_axis0_T_well_formed)
qed

theorem aggregate_single_sequence_witness:
  "LogitSequenceBatch
     \<lparr>shape = [1, 2, 3], data = [1, 2, 3, 4, 5, 6], mem_order = F_contiguous\<rparr> \<and>
   (\<exists>log_probas out.
      log_softmax \<lparr>shape = [1, 2, 3], data = [1, 2, 3, 4, 5, 6], mem_order = F_contiguous\<rparr> =
        Inr log_probas \<and>
      aggregate_probas (\<lambda>off. 9)
        \<lparr>shape = [1, 2, 3], data = [1, 2, 3, 4, 5, 6], mem_order = F_contiguous\<rparr> (- 7) =
        Inr out \<and>
      well_formed out \<and> shape out = [3, 2] \<and>
      (\<forall>t < 3. \<forall>c < 2. item out [t, c] = item log_probas [0, c, t]))"
proof -
  have batch: "LogitSequenceBatch
     \<lparr>shape = [1, 2, 3], data = [1, 2, 3, 4, 5, 6], mem_order = F_contiguous\<rparr>"
    by (simp add: LogitSequenceBatch_def well_formed_def)
  have one: "shape \<lparr>shape = [1, 2, 3], data = [1, 2, 3, 4, 5, 6], mem_order = F_contiguous\<rparr> ! 0
             = 1" by simp
  from aggregate_single_sequence [OF batch one, of "\<lambda>off. 9" "- 7"] batch
  show ?thesis by simp
qed

text \<open>
  Claim C7, as amended. An array whose rank is not 3 is never processed. When it has
  at least two axes and its axis 1 is not empty, \<open>aggregate_probas\<close> fails with
  \<open>NotImplementedError\<close> (the specification's \<open>NotSupported\<close>), raised by
  \<open>_pad_shift_array\<close>. An array with fewer than two axes fails before that, in
  \<open>log_softmax\<close>, with \<open>AxisError\<close>, and one with an empty axis 1 with \<open>ValueError\<close>.
\<close>

theorem aggregate_rank_rejection:
  assumes "length (shape x) \<noteq> 3"
  shows "aggregate_probas mem x strd =
           (if length (shape x) < 2 then Inl AxisError
            else if shape x ! 1 = 0 then Inl ValueError
            else Inl NotImplementedError)"
proof -
  consider "length (shape x) < 2" | "2 \<le> length (shape x)" "shape x ! 1 = 0"
    | "2 \<le> length (shape x)" "shape x ! 1 \<noteq> 0" by linarith
  then show ?thesis
  proof cases
    case 1
    then have "log_softmax x = Inl AxisError" by (subst log_softmax_cases) simp
    with 1 show ?thesis by (simp add: aggregate_probas_def)
  next
    case 2
    then have "log_softmax x = Inl ValueError" by (subst log_softmax_cases) simp
    with 2 show ?thesis by (simp add: aggregate_probas_def)
  next
    case 3
    then obtain lp where lp: "log_softmax x = Inr lp" by (subst (asm) log_softmax_cases) auto
    from log_softmax_Inr [OF lp] assms
    have "pad_shift_array mem lp strd = Inl NotImplementedError"
      by (simp add: pad_shift_array_def)
    with lp 3 show ?thesis by (simp add: aggregate_probas_def)
  qed
qed

theorem aggregate_rank_rejection_witness:
  "aggregate_probas (\<lambda>off. 0)
     \<lparr>shape = [2, 2], data = [1, 2, 3, 4], mem_order = C_contiguous\<rparr> 1 =
     Inl NotImplementedError \<and>
   aggregate_probas (\<lambda>off. 0)
     \<lparr>shape = [1, 1, 2, 2], data = [1, 2, 3, 4], mem_order = C_contiguous\<rparr> 1 =
     Inl NotImplementedError"
proof -
  have two: "length (shape \<lparr>shape = [2, 2], data = [1, 2, 3, 4], mem_order = C_contiguous\<rparr>)
             \<noteq> 3" by simp
  have four:
    "length (shape \<lparr>shape = [1, 1, 2, 2], data = [1, 2, 3, 4], mem_order = C_contiguous\<rparr>)
     \<noteq> 3" by simp
  from aggregate_rank_rejection [OF two, of "\<lambda>off. 0" 1]
    aggregate_rank_rejection [OF four, of "\<lambda>off. 0" 1]
  show ?thesis by simp
qed

text \<open>
  Claim C7 as stated fails for an array of rank 1: \<open>log_softmax(logits, axis=1)\<close> runs
  first and raises \<open>AxisError\<close>, so the rank check of \<open>_pad_shift_array\<close> is never
  reached.
\<close>

theorem aggregate_rank_one_counterexample:
  "length (shape \<lparr>shape = [3], data = [0, 0, 0], mem_order = C_contiguous\<rparr>) \<noteq> 3 \<and>
   aggregate_probas (\<lambda>off. 0) \<lparr>shape = [3], data = [0, 0, 0], mem_order = C_contiguous\<rparr> 1 =
     Inl AxisError \<and>
   aggregate_probas (\<lambda>off. 0) \<lparr>shape = [3], data = [0, 0, 0], mem_order = C_contiguous\<rparr> 1 \<noteq>
     Inl NotImplementedError"
  by (simp add: aggregate_probas_def log_softmax_def)

text \<open>
  Claim C10. \<open>aggregate_probas\<close> does not check its stride: for a logits array and the
  stride 0 it raises nothing and returns the array of shape \<open>(n_windows, n_classes)\<close>
  whose entry at position \<open>t\<close> and class \<open>c\<close> is the sum over all sequences \<open>i\<close> of
  \<open>log_softmax(logits)[i, c, t]\<close>.
\<close>

theorem aggregate_stride_zero:
  assumes "LogitSequenceBatch logits"
  shows "\<exists>log_probas out.
           log_softmax logits = Inr log_probas \<and>
           aggregate_probas mem logits 0 = Inr out \<and> well_formed out \<and>
           shape out = [shape logits ! 2, shape logits ! 1] \<and>
           (\<forall>t < shape logits ! 2. \<forall>c < shape logits ! 1.
              item out [t, c] = (\<Sum>i = 0..<shape logits ! 0. item log_probas [i, c, t]))"
proof -
  from assms(1) obtain S C W where sh: "shape logits = [S, C, W]" and C: "1 \<le> C"
    by (rule LogitSequenceBatch_dims)
  from log_softmax_defined [OF sh] C obtain lp where lp: "log_softmax logits = Inr lp" by auto
  from log_softmax_Inr [OF lp] sh have shlp: "shape lp = [S, C, W]" by simp
  have pad: "0 \<le> (int S - 1) * 0" by simp
  from aggregate_probas_returns [OF lp sh pad, of mem] obtain v where
    v: "vshape v = [S, C, W]" and agg: "aggregate_probas mem logits 0 = Inr (sum_axis0_T v)"
    and cell: "\<And>i c t. i < S \<Longrightarrow> c < C \<Longrightarrow> t < W \<Longrightarrow>
                 view_get v i c t = shifted_item lp 0 i c t"
    by auto
  have "item (sum_axis0_T v) [t, c] = (\<Sum>i = 0..<S. item lp [i, c, t])"
    if t: "t < W" and c: "c < C" for t c
  proof -
    have "item (sum_axis0_T v) [t, c] = (\<Sum>i = 0..<S. view_get v i c t)"
      by (rule sum_axis0_T_item [OF v t c])
    also have "\<dots> = (\<Sum>i = 0..<S. item lp [i, c, t])"
      by (rule sum.cong) (simp_all add: cell c t shifted_item_def shlp)
    finally show ?thesis .
  qed
  with lp agg sum_axis0_T_shape [OF v] sh show ?thesis
    by (simp add: sum_axis0_T_well_formed)
qed

theorem aggregate_stride_zero_witness:
  "LogitSequenceBatch \<lparr>shape = [2, 1, 2], data = [0, 0, 0, 0], mem_order = F_contiguous\<rparr> \<and>
   (\<exists>log_probas out.
      log_softmax \<lparr>shape = [2, 1, 2], data = [0, 0, 0, 0], mem_order = F_contiguous\<rparr> =
        Inr log_probas \<and>
      aggregate_probas (\<lambda>off. 9)
        \<lparr>shape = [2, 1, 2], data = [0, 0, 0, 0], mem_order = F_contiguous\<rparr> 0 = Inr out \<and>
      well_formed out \<and> shape out = [2, 1] \<and>
      (\<forall>t < 2. \<forall>c < 1. item out [t, c] = (\<Sum>i = 0..<2. item log_probas [i, c, t])))"
proof -
  have batch:
    "LogitSequenceBatch \<lparr>shape = [2, 1, 2], data = [0, 0, 0, 0], mem_order = F_contiguous\<rparr>"
    by (simp add: LogitSequenceBatch_def well_formed_def)
  from aggregate_stride_zero [OF batch, of "\<lambda>off. 9"] batch show ?thesis by simp
qed

section \<open>Properties of TimeDistributed.forward\<close>

subsection \<open>Lists of blocks of one length\<close>

lemma map_error_Inr:
  "(\<And>a. a \<in> set as \<Longrightarrow> g a = Inr (h a)) \<Longrightarrow> map_error g as = Inr (map h as)"
  by (induction as) simp_all

lemma length_concat_uniform:
  "(\<And>xs. xs \<in> set xss \<Longrightarrow> length xs = m) \<Longrightarrow> length (concat xss) = length xss * m"
  by (induction xss) simp_all

lemma nth_concat_uniform:
  "(\<And>xs. xs \<in> set xss \<Longrightarrow> length xs = m) \<Longrightarrow> k < length xss \<Longrightarrow> j < m \<Longrightarrow>
   concat xss ! (k * m + j) = xss ! k ! j"
proof (induction xss arbitrary: k)
  case Nil
  then show ?case by simp
next
  case (Cons xs xss)
  have len: "length xs = m" using Cons.prems(1) by simp
  show ?case
  proof (cases k)
    case 0
    with Cons.prems(3) len show ?thesis by (simp add: nth_append)
  next
    case (Suc k')
    with Cons.prems have "concat xss ! (k' * m + j) = xss ! k' ! j"
      by (intro Cons.IH) simp_all
    with Suc len show ?thesis by (simp add: nth_append)
  qed
qed

subsection \<open>Stacking and flattening is concatenation\<close>

lemma feature_vector_nth:
  assumes "shape f = B # fs" and "well_formed f" and "b < B" and "j < prod_list fs"
  shows "length (feature_vector f b) = prod_list fs"
    and "feature_vector f b ! j = data f ! (b * prod_list fs + j)"
proof -
  let ?F = "prod_list fs"
  from assms(1,2) have len: "length (data f) = B * ?F" by (simp add: well_formed_def)
  have "(b + 1) * ?F \<le> B * ?F" using assms(3) by (intro mult_le_mono1) simp
  then have le: "b * ?F + ?F \<le> B * ?F" by simp
  with len have "?F \<le> length (data f) - b * ?F" by linarith
  then show "length (feature_vector f b) = ?F"
    by (simp add: feature_vector_def feature_size_def assms(1))
  from le len have "b * ?F \<le> length (data f)" by linarith
  with assms(4) show "feature_vector f b ! j = data f ! (b * ?F + j)"
    by (simp add: feature_vector_def feature_size_def assms(1))
qed

lemma sum_list_const:
  "(\<And>x. x \<in> set xs \<Longrightarrow> g x = (c::nat)) \<Longrightarrow> sum_list (map g xs) = length xs * c"
  by (induction xs) simp_all

lemma concat_features_uniform:
  assumes all: "\<forall>f\<in>set feats. shape f = B # fs \<and> well_formed f"
  shows "shape (concat_features B feats) = [B, length feats * prod_list fs]"
    and "length (data (concat_features B feats)) = B * (length feats * prod_list fs)"
    and "b < B \<Longrightarrow> i < length feats \<Longrightarrow> j < prod_list fs \<Longrightarrow>
         data (concat_features B feats) ! (b * (length feats * prod_list fs) + (i * prod_list fs + j)) =
         data (feats ! i) ! (b * prod_list fs + j)"
proof -
  let ?F = "prod_list fs" and ?n = "length feats"
  let ?row = "\<lambda>b. concat (map (\<lambda>f. feature_vector f b) feats)"
  from all have feats: "shape f = B # fs \<and> well_formed f" if "f \<in> set feats" for f
    using that by blast
  have size: "feature_size f = ?F" if "f \<in> set feats" for f
    using feats [OF that] by (simp add: feature_size_def)
  have "sum_list (map feature_size feats) = ?n * ?F"
    by (rule sum_list_const) (rule size)
  then show "shape (concat_features B feats) = [B, ?n * ?F]"
    by (simp add: concat_features_def)
  have vec: "length xs = ?F" if "xs \<in> set (map (\<lambda>f. feature_vector f b) feats)" "b < B" for xs b
  proof -
    from that(1) obtain f where f: "f \<in> set feats" and xs: "xs = feature_vector f b" by auto
    from feats [OF f] that(2) show ?thesis
      unfolding xs by (cases "prod_list fs = 0")
        (simp add: feature_vector_def feature_size_def, simp add: feature_vector_nth(1) [where j = 0])
  qed
  have rowlen: "length (?row b) = ?n * ?F" if "b < B" for b
    using length_concat_uniform [of "map (\<lambda>f. feature_vector f b) feats" ?F] vec [OF _ that]
    by simp
  have rows: "length xs = ?n * ?F" if "xs \<in> set (map ?row [0..<B])" for xs
    using that rowlen by auto
  show "length (data (concat_features B feats)) = B * (?n * ?F)"
    using length_concat_uniform [of "map ?row [0..<B]" "?n * ?F"] rows
    by (simp add: concat_features_def)
  assume b: "b < B" and i: "i < ?n" and j: "j < ?F"
  have "i * ?F + j < (i + 1) * ?F" using j by simp
  also have "\<dots> \<le> ?n * ?F" using i by (intro mult_le_mono1) simp
  finally have ij: "i * ?F + j < ?n * ?F" .
  have "data (concat_features B feats) ! (b * (?n * ?F) + (i * ?F + j)) =
        map ?row [0..<B] ! b ! (i * ?F + j)"
    unfolding concat_features_def
    using nth_concat_uniform [of "map ?row [0..<B]" "?n * ?F" b "i * ?F + j"] rows b ij
    by simp
  also have "\<dots> = ?row b ! (i * ?F + j)" using b by simp
  also have "\<dots> = map (\<lambda>f. feature_vector f b) feats ! i ! j"
    using nth_concat_uniform [of "map (\<lambda>f. feature_vector f b) feats" ?F i j] vec [OF _ b] i j
    by simp
  also have "\<dots> = feature_vector (feats ! i) b ! j" using i by simp
  also have "\<dots> = data (feats ! i) ! (b * ?F + j)"
    using feats [of "feats ! i"] i b j by (intro feature_vector_nth(2)) simp_all
  finally show "data (concat_features B feats) ! (b * (?n * ?F) + (i * ?F + j)) =
         data (feats ! i) ! (b * ?F + j)" .
qed

lemma split_position:
  fixes p B n F :: nat
  assumes "p < B * (n * F)"
  shows "p div (n * F) < B" and "p div F mod n < n" and "p mod F < F"
    and "p = p div (n * F) * (n * F) + (p div F mod n * F + p mod F)"
proof -
  from assms have nF: "0 < n * F" by (cases "n * F") simp_all
  then have n: "0 < n" and F: "0 < F" by simp_all
  from assms show "p div (n * F) < B" by (simp add: less_mult_imp_div_less mult.commute)
  from n show "p div F mod n < n" by simp
  from F show "p mod F < F" by simp
  have "p mod (F * n) = F * (p div F mod n) + p mod F" by (rule mod_mult2_eq)
  then have "p mod (n * F) = p div F mod n * F + p mod F" by (simp add: mult.commute)
  then show "p = p div (n * F) * (n * F) + (p div F mod n * F + p mod F)"
    by (metis div_mult_mod_eq)
qed

lemma stack_flatten_eq_concat:
  assumes ne: "feats \<noteq> []"
    and feats: "\<forall>f\<in>set feats. shape f = B # fs \<and> well_formed f"
  shows "\<exists>stacked. torch_stack feats = Inr stacked \<and>
           flatten stacked = Inr (concat_features B feats)"
proof -
  let ?F = "prod_list fs" and ?n = "length feats"
  let ?st = "\<lparr>shape = B # ?n # fs,
              data = map (\<lambda>p. data (feats ! (p div ?F mod ?n)) ! (p div (?n * ?F) * ?F + p mod ?F))
                         [0..<B * ?n * ?F]\<rparr>"
  from ne obtain f0 rest where fr: "feats = f0 # rest" by (cases feats) auto
  then have f0: "shape f0 = B # fs" using feats by simp
  have same: "list_all (\<lambda>f. shape f = shape f0) feats"
    using feats f0 by (simp add: list_all_iff)
  have st: "torch_stack feats = Inr ?st"
    using same [unfolded fr] f0 unfolding torch_stack_def fr by (simp add: Let_def)
  have fl: "flatten ?st = Inr \<lparr>shape = [B, ?n * ?F], data = data ?st\<rparr>"
    by (simp add: flatten_def)
  note cf = concat_features_uniform [OF feats]
  have "data ?st = data (concat_features B feats)"
  proof (rule nth_equalityI)
    show "length (data ?st) = length (data (concat_features B feats))"
      using cf(2) by (simp add: mult.assoc)
  next
    fix p assume "p < length (data ?st)"
    then have p: "p < B * (?n * ?F)" by (simp add: mult.assoc)
    note sp = split_position [OF p]
    have "data (concat_features B feats) ! p =
          data (concat_features B feats) !
            (p div (?n * ?F) * (?n * ?F) + (p div ?F mod ?n * ?F + p mod ?F))"
      using sp(4) by simp
    also have "\<dots> = data (feats ! (p div ?F mod ?n)) ! (p div (?n * ?F) * ?F + p mod ?F)"
      by (rule cf(3) [OF sp(1,2,3)])
    finally show "data ?st ! p = data (concat_features B feats) ! p"
      using p by (simp add: mult.assoc)
  qed
  with cf(1) have "\<lparr>shape = [B, ?n * ?F], data = data ?st\<rparr> = concat_features B feats"
    by (simp add: concat_features_def)
  with st fl show ?thesis by auto
qed


lemma item_concat_features:
  assumes all: "\<forall>f\<in>set feats. shape f = B # fs \<and> well_formed f"
    and "b < B" and "i < length feats" and "j < prod_list fs"
  shows "item (concat_features B feats) [b, i * prod_list fs + j] = feature_vector (feats ! i) b ! j"
proof -
  from all assms(3) have fi: "shape (feats ! i) = B # fs" "well_formed (feats ! i)" by simp_all
  have "item (concat_features B feats) [b, i * prod_list fs + j] =
        data (concat_features B feats) ! (b * (length feats * prod_list fs) + (i * prod_list fs + j))"
    by (simp add: item_def concat_features_uniform(1) [OF all] flat_index_def)
  also have "\<dots> = data (feats ! i) ! (b * prod_list fs + j)"
    by (rule concat_features_uniform(3) [OF all assms(2,3,4)])
  also have "\<dots> = feature_vector (feats ! i) b ! j"
    by (rule feature_vector_nth(2) [OF fi assms(2,4), symmetric])
  finally show ?thesis .
qed

subsection \<open>The claim about the forward pass\<close>

text \<open>
  Claim C8, as amended. For an input of shape batch x window_count x channels x time
  with at least one window, and a feature extractor that returns for every window a
  well-formed tensor of one shape \<open>(batch, ...)\<close>, \<open>forward\<close> equals the forward pass
  the specification describes: the feature extractor applied to each window
  \<open>x[:, i]\<close>, the feature vectors of each batch element concatenated in window order,
  and the classifier head applied to the result. Feature \<open>j\<close> of window \<open>i\<close> is at
  position \<open>i * F + j\<close> of the concatenated vector, \<open>F\<close> the size of one feature vector.
\<close>

theorem forward_concatenates_window_features:
  assumes x: "shape x = [B, n, Ch, T]" and n: "1 \<le> n"
    and fe: "\<forall>i<n. feat_extractor self (select_dim1 x i) = Inr (f i) \<and>
                    shape (f i) = B # fs \<and> well_formed (f i)"
  shows "forward self x = spec_forward self x \<and>
         forward self x = clf self (concat_features B (map f [0..<n])) \<and>
         (\<forall>b<B. \<forall>i<n. \<forall>j<prod_list fs.
            item (concat_features B (map f [0..<n])) [b, i * prod_list fs + j] =
            feature_vector (f i) b ! j)"
proof -
  let ?feats = "map f [0..<n]"
  have run: "map_error (\<lambda>i. feat_extractor self (select_dim1 x i)) [0..<n] = Inr ?feats"
    by (rule map_error_Inr) (simp add: fe)
  from n have ne: "?feats \<noteq> []" by simp
  from fe have all: "\<forall>g\<in>set ?feats. shape g = B # fs \<and> well_formed g" by auto
  from stack_flatten_eq_concat [OF ne all] obtain stacked where
    st: "torch_stack ?feats = Inr stacked" and fl: "flatten stacked = Inr (concat_features B ?feats)"
    by blast
  have fwd: "forward self x = clf self (concat_features B ?feats)"
    by (simp add: forward_def x run st fl)
  have spec: "spec_forward self x = clf self (concat_features B ?feats)"
    by (simp add: spec_forward_def x run)
  have slice: "item (concat_features B ?feats) [b, i * prod_list fs + j] = feature_vector (f i) b ! j"
    if "b < B" "i < n" "j < prod_list fs" for b i j
    using item_concat_features [OF all that(1) _ that(3), of i] that(2) by simp
  from fwd spec slice show ?thesis by simp
qed

theorem forward_concatenates_window_features_witness:
  "forward \<lparr>feat_extractor = Inr, clf = Inr\<rparr> \<lparr>shape = [1, 2, 1, 1], data = [3, 4]\<rparr> =
   Inr \<lparr>shape = [1, 2], data = [3, 4]\<rparr>"
proof -
  let ?self = "\<lparr>feat_extractor = Inr, clf = Inr\<rparr>"
  let ?x = "\<lparr>shape = [1, 2, 1, 1], data = [3, 4]\<rparr>"
  have x: "shape ?x = [1, 2, 1, 1]" by simp
  have n: "(1::nat) \<le> 2" by simp
  have fe: "\<forall>i<2. feat_extractor ?self (select_dim1 ?x i) = Inr (select_dim1 ?x i) \<and>
                  shape (select_dim1 ?x i) = 1 # [1, 1] \<and> well_formed (select_dim1 ?x i)"
    by (simp add: select_dim1_def well_formed_def)
  have two: "[0..<2] = [0, 1]" by (simp add: upt_rec)
  from forward_concatenates_window_features [OF x n fe, THEN conjunct2, THEN conjunct1]
  show ?thesis
    by (simp add: two concat_features_def feature_vector_def feature_size_def select_dim1_def
          numeral_2_eq_2)
qed

text \<open>
  Claim C8 as stated fails for an input without windows: the list of features is
  empty and \<open>torch.stack\<close> raises, where the forward pass of the specification hands
  the classifier head an empty vector for each batch element.
\<close>

theorem forward_no_window_counterexample:
  "forward \<lparr>feat_extractor = Inr, clf = Inr\<rparr> \<lparr>shape = [1, 0, 1, 1], data = []\<rparr> =
     Inl RuntimeError \<and>
   spec_forward \<lparr>feat_extractor = Inr, clf = Inr\<rparr> \<lparr>shape = [1, 0, 1, 1], data = []\<rparr> =
     Inr \<lparr>shape = [1, 0], data = []\<rparr>"
  by (simp add: forward_def spec_forward_def torch_stack_def concat_features_def)

section \<open>Properties of get_output_shape\<close>

text \<open>
  Claim C9. \<open>get_output_shape\<close> fails with \<open>StopIteration\<close> (the specification's
  \<open>InvalidState\<close>) when the model has no parameters. When it has one, the input is the
  all-ones tensor of shape \<open>(1, in_chans, input_window_samples)\<close> with the element
  type and the device of the first parameter, and the result is the shape of the
  model's output on it (or the exception of that forward pass).
\<close>

theorem get_output_shape_probe:
  "(parameters model = [] \<longrightarrow>
      get_output_shape model in_chans input_window_samples = Inl StopIteration) \<and>
   (\<forall>p ps. parameters model = p # ps \<longrightarrow>
      shape (torch_ones [1, in_chans, input_window_samples] (dtype p) (device p)) =
        [1, in_chans, input_window_samples] \<and>
      data (torch_ones [1, in_chans, input_window_samples] (dtype p) (device p)) =
        replicate (in_chans * input_window_samples) 1 \<and>
      get_output_shape model in_chans input_window_samples =
        (case call model (torch_ones [1, in_chans, input_window_samples] (dtype p) (device p)) of
           Inl e \<Rightarrow> Inl e
         | Inr output \<Rightarrow> Inr (shape output)))"
  by (simp add: get_output_shape_def next_item_def torch_ones_def)

theorem get_output_shape_probe_witness:
  "get_output_shape \<lparr>parameters = [], call = Inr\<rparr> 3 5 = Inl StopIteration \<and>
   get_output_shape
     \<lparr>parameters = [\<lparr>shape = [2], data = [0, 0], dtype = Float32, device = CPU\<rparr>],
      call = (\<lambda>t. Inr (t\<lparr>shape := [1, 4], data := [0, 0, 0, 0]\<rparr>))\<rparr> 3 5 = Inr [1, 4]"
  using get_output_shape_probe [of "\<lparr>parameters = [], call = Inr\<rparr>" 3 5]
    get_output_shape_probe
      [of "\<lparr>parameters = [\<lparr>shape = [2], data = [0, 0], dtype = Float32, device = CPU\<rparr>],
            call = (\<lambda>t. Inr (t\<lparr>shape := [1, 4], data := [0, 0, 0, 0]\<rparr>))\<rparr>" 3 5]
  by simp

end
